theory Spec2Isabelle
  imports Complex_Main "HOL-Library.AList" "HOL-Library.Sublist"
begin

section \<open>Quota ledger and request queue (spectre-ai-service-impl.ts)\<close>

text \<open>
  Timestamps are milliseconds (\<open>Date.now()\<close>) and token counts are integers; both are
  \<open>int\<close>. Every operation takes the clock reading \<open>now\<close> and the value \<open>pm\<close> of
  \<open>getPacificMidnight()\<close> as arguments; one synchronous turn of the event loop reads one
  clock value. A \<open>Record<string, T>\<close> created with \<open>Object.create(null)\<close> is an
  insertion-ordered association list with distinct keys.
\<close>

type_synonym 'a dict = "(string \<times> 'a) list"

definition TOKEN_CAPACITY_PER_MINUTE :: int where "TOKEN_CAPACITY_PER_MINUTE = 250000"
definition RPM_FLASH :: nat where "RPM_FLASH = 10"
definition RPM_FLASH_LITE :: nat where "RPM_FLASH_LITE = 15"
definition RPD_FLASH :: nat where "RPD_FLASH = 250"
definition RPD_FLASH_LITE :: nat where "RPD_FLASH_LITE = 1000"
definition ROLLING_WINDOW_MS :: int where "ROLLING_WINDOW_MS = 60000"
definition MIN_SPACING_MS_FLASH :: int where "MIN_SPACING_MS_FLASH = 6000"
definition MIN_SPACING_MS_FLASH_LITE :: int where "MIN_SPACING_MS_FLASH_LITE = 4000"

record TokenUsage =
  time :: int
  tokens :: int
  reservation :: bool

text \<open>A queued request: the payload and the promise continuations are not modelled.\<close>

record PendingRequest =
  reservationTokens :: int
  model :: string
  abortKey :: string
  enqueuedAt :: int

text \<open>
  The fields of \<open>SpectreAiServiceImpl\<close> that the scheduler reads and writes. \<open>started\<close>
  is a log of the requests handed to \<open>startRequest\<close>, in order; the code has no such
  field, it records the calls. Timers and the quota notifications sent to the client
  are not modelled.
\<close>

record service =
  abortControllers :: "string list"
  recentCalls :: "int list dict"
  dailyCalls :: "int list dict"
  lastCallAt :: "int dict"
  tokenWindows :: "TokenUsage list dict"
  cachedRpmLists :: "int list dict"
  cachedDailyLists :: "int list dict"
  queue :: "PendingRequest list"
  processing :: bool
  lastUsedModel :: string
  started :: "PendingRequest list"

definition initial :: service where
  "initial = \<lparr> abortControllers = [], recentCalls = [], dailyCalls = [], lastCallAt = [],
     tokenWindows = [], cachedRpmLists = [], cachedDailyLists = [], queue = [],
     processing = False, lastUsedModel = ''gemini-2.5-flash'', started = [] \<rparr>"

subsection \<open>Strings\<close>

fun startsWith :: "string \<Rightarrow> string \<Rightarrow> bool" where
  "startsWith s [] = True"
| "startsWith [] (p # ps) = False"
| "startsWith (c # cs) (p # ps) = (c = p \<and> startsWith cs ps)"

text \<open>\<open>s.includes(p)\<close>\<close>

fun includesStr :: "string \<Rightarrow> string \<Rightarrow> bool" where
  "includesStr [] p = (p = [])"
| "includesStr (c # cs) p = (startsWith (c # cs) p \<or> includesStr cs p)"

definition isFlashLite :: "string \<Rightarrow> bool" where
  "isFlashLite m = includesStr m ''flash-lite''"

definition mapModel :: "string \<Rightarrow> string" where
  "mapModel m = (if m \<in> set [''gemini-2.5-flash'', ''gemini-2.5-flash-lite''] then m
                 else ''gemini-2.5-flash'')"

subsection \<open>Dictionaries\<close>

text \<open>\<open>d[k] || []\<close>\<close>

definition getList :: "'a list dict \<Rightarrow> string \<Rightarrow> 'a list" where
  "getList d k = (case map_of d k of None \<Rightarrow> [] | Some l \<Rightarrow> l)"

text \<open>\<open>if (!d[k]) d[k] = []; d[k].push(v)\<close>\<close>

definition pushTo :: "string \<Rightarrow> 'a \<Rightarrow> 'a list dict \<Rightarrow> 'a list dict" where
  "pushTo k v d = AList.update k (getList d k @ [v]) d"

text \<open>\<open>d[k] || 0\<close>\<close>

definition getNum :: "int dict \<Rightarrow> string \<Rightarrow> int" where
  "getNum d k = (case map_of d k of None \<Rightarrow> 0 | Some n \<Rightarrow> n)"

subsection \<open>cleanWindows\<close>

text \<open>
  The three cleaning loops of \<open>cleanWindows\<close> have one shape: skip an empty list; count
  the expired entries; when \<open>expiredCount > list.length * 0.3\<close> replace the list by its
  unexpired entries and delete the key when nothing is left. The comparison with the
  double \<open>length * 0.3\<close> agrees with \<open>3 * length < 10 * expiredCount\<close> on integers.
\<close>

definition needsClean :: "('a \<Rightarrow> bool) \<Rightarrow> 'a list \<Rightarrow> bool" where
  "needsClean expired l = (l \<noteq> [] \<and> 3 * length l < 10 * length (filter expired l))"

fun cleanDict :: "('a \<Rightarrow> bool) \<Rightarrow> 'a list dict \<Rightarrow> 'a list dict" where
  "cleanDict expired [] = []"
| "cleanDict expired ((k, l) # rest) =
     (if needsClean expired l
      then (if filter (\<lambda>e. \<not> expired e) l = [] then cleanDict expired rest
            else (k, filter (\<lambda>e. \<not> expired e) l) # cleanDict expired rest)
      else (k, l) # cleanDict expired rest)"

definition anyCleaned :: "('a \<Rightarrow> bool) \<Rightarrow> 'a list dict \<Rightarrow> bool" where
  "anyCleaned expired d = list_ex (\<lambda>kl. needsClean expired (snd kl)) d"

text \<open>\<open>for (const k in src) cache[k] = src[k].filter(keep)\<close>, on an empty cache\<close>

definition buildCache :: "(int \<Rightarrow> bool) \<Rightarrow> int list dict \<Rightarrow> int list dict" where
  "buildCache keep src = map (\<lambda>kl. (fst kl, filter keep (snd kl))) src"

definition cleanWindows :: "int \<Rightarrow> int \<Rightarrow> service \<Rightarrow> service" where
  "cleanWindows now pm s =
     (let rpmCutoff = now - ROLLING_WINDOW_MS;
          needRebuildCache =
            (anyCleaned (\<lambda>e. time e < rpmCutoff) (tokenWindows s)
             \<or> anyCleaned (\<lambda>t. t < rpmCutoff) (recentCalls s)
             \<or> anyCleaned (\<lambda>t. t < pm) (dailyCalls s));
          s1 = s\<lparr> tokenWindows := cleanDict (\<lambda>e. time e < rpmCutoff) (tokenWindows s),
                  recentCalls := cleanDict (\<lambda>t. t < rpmCutoff) (recentCalls s),
                  dailyCalls := cleanDict (\<lambda>t. t < pm) (dailyCalls s) \<rparr>
      in if needRebuildCache
         then s1\<lparr> cachedRpmLists := buildCache (\<lambda>t. rpmCutoff \<le> t) (recentCalls s1),
                  cachedDailyLists := buildCache (\<lambda>t. pm \<le> t) (dailyCalls s1) \<rparr>
         else s1\<lparr> cachedRpmLists :=
                    (if cachedRpmLists s1 = []
                     then buildCache (\<lambda>t. rpmCutoff \<le> t) (recentCalls s1)
                     else cachedRpmLists s1),
                  cachedDailyLists :=
                    (if cachedDailyLists s1 = []
                     then buildCache (\<lambda>t. pm \<le> t) (dailyCalls s1)
                     else cachedDailyLists s1) \<rparr>)"

subsection \<open>Admission\<close>

text \<open>\<open>Object.values(this.tokenWindows).reduce(...)\<close>: the sum runs over every model's window.\<close>

definition windowTokens :: "TokenUsage list \<Rightarrow> int" where
  "windowTokens w = foldl (\<lambda>acc e. acc + tokens e) 0 w"

definition currentUsedTokens :: "service \<Rightarrow> int" where
  "currentUsedTokens s = foldl (\<lambda>total kw. total + windowTokens (snd kw)) 0 (tokenWindows s)"

text \<open>
  \<open>canStartNow\<close> first runs \<open>cleanWindows\<close>, which mutates the service, then performs the
  four checks in the order of the source; the result is the verdict and the cleaned state.
\<close>

definition canStartNow :: "int \<Rightarrow> int \<Rightarrow> string \<Rightarrow> int \<Rightarrow> service \<Rightarrow> bool \<times> service" where
  "canStartNow now pm m reservationTokens0 s =
     (let s1 = cleanWindows now pm s;
          rpmLimit = (if isFlashLite m then RPM_FLASH_LITE else RPM_FLASH);
          rpmList = getList (cachedRpmLists s1) m;
          rpdLimit = (if isFlashLite m then RPD_FLASH_LITE else RPD_FLASH);
          dailyList = getList (cachedDailyLists s1) m;
          used = currentUsedTokens s1;
          last = getNum (lastCallAt s1) m;
          minSpacing = (if isFlashLite m then MIN_SPACING_MS_FLASH_LITE else MIN_SPACING_MS_FLASH)
      in (if rpmLimit \<le> length rpmList then False
          else if rpdLimit \<le> length dailyList then False
          else if TOKEN_CAPACITY_PER_MINUTE < used + reservationTokens0 then False
          else if now - last < minSpacing then False
          else True, s1))"

subsection \<open>Recording\<close>

text \<open>The state change of \<open>pushQuotaUpdate\<close> is its call of \<open>cleanWindows\<close>.\<close>

definition pushQuotaUpdate :: "int \<Rightarrow> int \<Rightarrow> service \<Rightarrow> service" where
  "pushQuotaUpdate now pm s = cleanWindows now pm s"

definition recordReservation :: "int \<Rightarrow> int \<Rightarrow> string \<Rightarrow> int \<Rightarrow> service \<Rightarrow> service" where
  "recordReservation now pm m n s =
     cleanWindows now pm
       (s\<lparr> tokenWindows :=
            pushTo m \<lparr> time = now, tokens = n, reservation = True \<rparr> (tokenWindows s) \<rparr>)"

definition adjustReservation :: "int \<Rightarrow> int \<Rightarrow> string \<Rightarrow> int \<Rightarrow> int \<Rightarrow> service \<Rightarrow> service" where
  "adjustReservation now pm m actual reservation0 s =
     (let delta = actual - reservation0
      in if delta \<noteq> 0
         then cleanWindows now pm
                (s\<lparr> tokenWindows :=
                     pushTo m \<lparr> time = now, tokens = delta, reservation = False \<rparr>
                       (tokenWindows s) \<rparr>)
         else s)"

definition recordRpm :: "int \<Rightarrow> int \<Rightarrow> string \<Rightarrow> service \<Rightarrow> service" where
  "recordRpm now pm m s =
     (let rc = pushTo m now (recentCalls s);
          dc = pushTo m now (dailyCalls s);
          rc' = (if 100 < length (getList rc m)
                 then AList.update m (filter (\<lambda>t. now - ROLLING_WINDOW_MS \<le> t) (getList rc m)) rc
                 else rc);
          dc' = (if 200 < length (getList dc m)
                 then AList.update m (filter (\<lambda>t. pm \<le> t) (getList dc m)) dc
                 else dc)
      in s\<lparr> recentCalls := rc', dailyCalls := dc' \<rparr>)"

subsection \<open>Queue\<close>

text \<open>The synchronous part of \<open>startRequest\<close>, up to the first \<open>await\<close>.\<close>

definition startRequest :: "int \<Rightarrow> int \<Rightarrow> PendingRequest \<Rightarrow> service \<Rightarrow> service" where
  "startRequest now pm p s =
     (let s1 = s\<lparr> lastUsedModel := model p,
                  abortControllers := abortKey p # removeAll (abortKey p) (abortControllers s),
                  started := started s @ [p] \<rparr>;
          s2 = recordReservation now pm (model p) (reservationTokens p) s1;
          s3 = recordRpm now pm (model p) s2
      in pushQuotaUpdate now pm s3)"

definition scheduleQueueProcessing :: "service \<Rightarrow> service" where
  "scheduleQueueProcessing s = (if processing s then s else s\<lparr> processing := True \<rparr>)"

text \<open>
  The body of the promise that \<open>generate\<close> returns, for a request whose reservation has
  been estimated: \<open>m\<close> is the requested model, \<open>r\<close> the reservation, \<open>k\<close> the abort key.
\<close>

definition generate :: "int \<Rightarrow> int \<Rightarrow> string \<Rightarrow> int \<Rightarrow> string \<Rightarrow> service \<Rightarrow> service" where
  "generate now pm m r k s =
     (let pending = \<lparr> reservationTokens = r, model = mapModel m, abortKey = k,
                      enqueuedAt = now \<rparr>;
          (ok, s1) = canStartNow now pm (model pending) r s
      in scheduleQueueProcessing
           (if ok then startRequest now pm pending s1
            else pushQuotaUpdate now pm (s1\<lparr> queue := queue s1 @ [pending] \<rparr>)))"

definition runQueueCycle :: "int \<Rightarrow> int \<Rightarrow> service \<Rightarrow> service" where
  "runQueueCycle now pm s =
     (let s0 = cleanWindows now pm s
      in (case queue s0 of
            [] \<Rightarrow> s0
          | next # rest \<Rightarrow>
              (let (ok, s1) = canStartNow now pm (model next) (reservationTokens next) s0
               in if ok
                  then pushQuotaUpdate now pm (startRequest now pm next (s1\<lparr> queue := rest \<rparr>))
                  else s1))
         \<lparr> processing := False \<rparr>)"

text \<open>\<open>this.lastCallAt[model] = Date.now()\<close>, executed by the executor after pacing.\<close>

definition setLastCallAt :: "int \<Rightarrow> string \<Rightarrow> service \<Rightarrow> service" where
  "setLastCallAt now m s = s\<lparr> lastCallAt := AList.update m now (lastCallAt s) \<rparr>"

subsection \<open>afterResponse\<close>

record ResponseMeta =
  promptTokens :: "int option"
  usedReservation :: "int option"

record SpectreAiResponse =
  responseText :: string
  meta :: "ResponseMeta option"

text \<open>
  \<open>res.meta?.promptTokens || 0\<close>: an absent \<open>meta\<close>, an absent count and the count 0
  all give 0. The result is the service and the response, whose \<open>meta\<close> the code
  mutates in place.
\<close>

definition actualPromptTokens :: "SpectreAiResponse \<Rightarrow> int" where
  "actualPromptTokens res =
     (case meta res of None \<Rightarrow> 0
      | Some mt \<Rightarrow> (case promptTokens mt of None \<Rightarrow> 0 | Some n \<Rightarrow> n))"

definition afterResponse ::
  "int \<Rightarrow> int \<Rightarrow> string \<Rightarrow> int \<Rightarrow> SpectreAiResponse \<Rightarrow> service \<Rightarrow> service \<times> SpectreAiResponse" where
  "afterResponse now pm m reservationTokens0 res s =
     (let actual = actualPromptTokens res
      in if 0 < actual
         then (pushQuotaUpdate now pm (adjustReservation now pm m actual reservationTokens0 s),
               (case meta res of None \<Rightarrow> res
                | Some mt \<Rightarrow> res\<lparr> meta := Some (mt\<lparr> usedReservation := Some reservationTokens0 \<rparr>) \<rparr>))
         else (pushQuotaUpdate now pm s, res))"

section \<open>Token estimation\<close>

text \<open>
  A JavaScript string is a list of code units; the model covers the code units below
  256, which are the \<open>char\<close>s of HOL. On that range \<open>\s\<close> and \<open>trim()\<close> recognise
  tab, line feed, vertical tab, form feed, carriage return, space and U+00A0.
\<close>

definition isWs :: "char \<Rightarrow> bool" where
  "isWs c = (of_char c \<in> set [9, 10, 11, 12, 13, 32, 160 :: nat])"

definition trim :: "string \<Rightarrow> string" where
  "trim s = rev (dropWhile isWs (rev (dropWhile isWs s)))"

text \<open>\<open>s.split(/\s+/).length\<close>: one more than the number of maximal runs of whitespace.\<close>

fun wsRuns :: "bool \<Rightarrow> string \<Rightarrow> nat" where
  "wsRuns inRun [] = 0"
| "wsRuns inRun (c # cs) =
     (if isWs c then (if inRun then 0 else 1) + wsRuns True cs else wsRuns False cs)"

definition splitWsCount :: "string \<Rightarrow> nat" where
  "splitWsCount s = 1 + wsRuns False s"

text \<open>\<open>Math.ceil(a / b)\<close> for a positive divisor.\<close>

definition ceilDiv :: "int \<Rightarrow> int \<Rightarrow> int" where
  "ceilDiv a b = - ((- a) div b)"

text \<open>Some position of \<open>s\<close> satisfies \<open>P\<close> on the rest of the string from there.\<close>

fun anySuffix :: "(string \<Rightarrow> bool) \<Rightarrow> string \<Rightarrow> bool" where
  "anySuffix P [] = P []"
| "anySuffix P (c # cs) = (P (c # cs) \<or> anySuffix P cs)"

text \<open>\<open>kw\s*[\(\{]\<close> at the start of \<open>s\<close>\<close>

definition keywordThenOpen :: "string \<Rightarrow> string \<Rightarrow> bool" where
  "keywordThenOpen kw s =
     (startsWith s kw \<and>
      (case dropWhile isWs (drop (length kw) s) of
         [] \<Rightarrow> False
       | c # _ \<Rightarrow> c = CHR ''('' \<or> c = CHR ''{''))"

definition codeKeywords :: "string list" where
  "codeKeywords = [''function'', ''class'', ''const'', ''let'', ''var'', ''return'', ''if'',
                   ''for'', ''while'']"

text \<open>\<open>/^\s*[\{\[]/.test(s)\<close>\<close>

definition startsWithBracket :: "string \<Rightarrow> bool" where
  "startsWithBracket s =
     (case dropWhile isWs s of [] \<Rightarrow> False | c # _ \<Rightarrow> c = CHR ''{'' \<or> c = CHR ''['')"

text \<open>\<open>estimateTokens\<close> of spectre-ai-service-impl.ts\<close>

definition estimateTokens :: "string \<Rightarrow> int" where
  "estimateTokens text0 =
     (let clean = trim text0
      in if clean = [] then 4
         else
           (let len = int (length clean);
                hasCodeBlock = includesStr clean ''```'';
                hasCode = (hasCodeBlock \<or>
                           anySuffix (\<lambda>r. list_ex (\<lambda>kw. keywordThenOpen kw r) codeKeywords) clean);
                hasJson = (startsWithBracket clean \<or>
                           (includesStr clean [CHR 0x22, CHR '':''] \<and> includesStr clean ''{''));
                baseTokens =
                  (if hasJson then ceilDiv len 3
                   else if hasCode then ceilDiv (2 * len) 7
                   else max (ceilDiv (13 * int (splitWsCount clean)) 10) (ceilDiv (2 * len) 9));
                overhead = 5
            in max 4 (baseTokens + overhead)))"

subsection \<open>TokenCounter (token-counter.ts)\<close>

datatype contentType = Code | Json | Natural | Mixed

definition isWordChar :: "char \<Rightarrow> bool" where
  "isWordChar c =
     (let n = (of_char c :: nat)
      in (48 \<le> n \<and> n \<le> 57) \<or> (65 \<le> n \<and> n \<le> 90) \<or> n = 95 \<or> (97 \<le> n \<and> n \<le> 122))"

text \<open>
  The number of matches of a global regular expression none of whose matches overlap:
  \<open>P prev rest\<close> says that a match starts where \<open>rest\<close> starts, \<open>prev\<close> being the
  character before.
\<close>

fun countMatches :: "(char option \<Rightarrow> string \<Rightarrow> bool) \<Rightarrow> char option \<Rightarrow> string \<Rightarrow> nat" where
  "countMatches P prev [] = 0"
| "countMatches P prev (c # cs) = (if P prev (c # cs) then 1 else 0) + countMatches P (Some c) cs"

text \<open>\<open>\b(w1|w2|...)\b\<close> at the start of \<open>rest\<close>\<close>

definition wordAt :: "string list \<Rightarrow> char option \<Rightarrow> string \<Rightarrow> bool" where
  "wordAt ws prev rest =
     ((case prev of None \<Rightarrow> True | Some p \<Rightarrow> \<not> isWordChar p) \<and>
      list_ex (\<lambda>w. startsWith rest w \<and>
                    (case drop (length w) rest of [] \<Rightarrow> True | c # _ \<Rightarrow> \<not> isWordChar c)) ws)"

text \<open>\<open>#include\s*[<"]\<close> at the start of \<open>rest\<close>\<close>

definition includeAt :: "string \<Rightarrow> bool" where
  "includeAt rest =
     (startsWith rest ''#include'' \<and>
      (case dropWhile isWs (drop 8 rest) of
         [] \<Rightarrow> False
       | c # _ \<Rightarrow> c = CHR ''<'' \<or> c = CHR 0x22))"

definition detectContentType :: "string \<Rightarrow> contentType" where
  "detectContentType text0 =
     (let sample = take 1000 text0;
          n = int (length sample);
          opensJson = startsWithBracket sample;
          closesJson = (case dropWhile isWs (rev sample) of
                          [] \<Rightarrow> False
                        | c # _ \<Rightarrow> c = CHR '']'' \<or> c = CHR ''}'');
          jsonChars = int (length (filter (\<lambda>c. c \<in> set ''{}[]:,'') sample));
          codeScore =
            int (countMatches (wordAt [''void'', ''int'', ''float'', ''char'', ''bool'', ''byte'',
                                       ''String'']) None sample)
            + int (countMatches (wordAt [''setup'', ''loop'', ''pinMode'', ''digitalWrite'',
                                         ''analogRead'']) None sample)
            + int (countMatches (\<lambda>prev rest. includeAt rest) None sample)
            + int (length (filter (\<lambda>c. c \<in> set ''(){};'') sample));
          sentenceEndings =
            int (countMatches (\<lambda>prev rest.
                   case rest of
                     c # d # _ \<Rightarrow> c \<in> set ''.!?'' \<and> isWs d
                   | _ \<Rightarrow> False) None sample);
          words = int (splitWsCount sample)
      in if opensJson \<and> closesJson \<and> n < 20 * jsonChars then Json
         else if n < 50 * codeScore then Code
         else if 10 < words \<and> words < 20 * sentenceEndings then Natural
         else Mixed)"

text \<open>
  \<open>TokenCounter.estimate(text, contentType?)\<close>. The divisions by 3.5 and 4.5 and the
  product with 1.3 are written over the integers.
\<close>

definition estimate :: "string \<Rightarrow> contentType option \<Rightarrow> int" where
  "estimate text0 contentType0 =
     (if text0 = [] then 0
      else
        (let len = int (length text0);
             ct = (case contentType0 of None \<Rightarrow> detectContentType text0 | Some c \<Rightarrow> c)
         in case ct of
              Json \<Rightarrow> ceilDiv len 3
            | Code \<Rightarrow> ceilDiv (2 * len) 7
            | Natural \<Rightarrow> ceilDiv (13 * int (splitWsCount text0)) 10
            | Mixed \<Rightarrow> ceilDiv len 4))"

section \<open>Conversation memory (memory-manager.ts)\<close>

text \<open>
  memory-types.ts is not among the sources; the records below have the fields that
  memory-manager.ts reads and writes. \<open>RawMessage\<close> and \<open>SummaryEntry\<close> share the
  fields \<open>id\<close> and \<open>estimatedTokens\<close>, which \<open>withTokenCount\<close> fills.
\<close>

datatype role = User | Assistant

datatype summaryCategory = CodeChange | Configuration | Debugging | Learning | General

text \<open>
  The ids are the template strings \<open>msg-${Date.now()}-${random}\<close>,
  \<open>summary-${Date.now()}\<close> and \<open>compressed-${Date.now()}\<close>, kept by their parts.
\<close>

datatype entryIdent = MsgId int string | SummaryId int | CompressedId int

record Counted =
  entryId :: entryIdent
  estimatedTokens :: "int option"

record RawMessage = Counted +
  role :: role
  msgText :: string
  timestamp :: int

record SummaryEntry = Counted +
  summary :: string
  originalMessageIds :: "entryIdent list"
  createdAt :: int
  category :: summaryCategory

record SummarizationTrigger =
  minMessages :: int
  maxTokens :: int

record MemoryConfig =
  maxRecentMessages :: int
  memoryBankTokenCap :: int
  summarizationTrigger :: SummarizationTrigger
  compressionThreshold :: rat

record MemoryBank =
  summaries :: "SummaryEntry list"
  totalTokens :: int
  version :: int
  lastCompressedAt :: "int option"

record MemoryStats =
  totalInteractions :: int
  summarizationsPerformed :: int
  lastSummarizedAt :: "int option"

record ConversationMemory =
  sessionId :: string
  recentMessages :: "RawMessage list"
  memoryBank :: MemoryBank
  config :: MemoryConfig
  stats :: MemoryStats

text \<open>
  memory-types.ts declares \<open>DEFAULT_MEMORY_CONFIG\<close>; the values are those of the
  default configuration in the repository's documentation, where the threshold is
  \<open>compressionTrigger: { threshold: 0.9 }\<close>.
\<close>

definition DEFAULT_MEMORY_CONFIG :: MemoryConfig where
  "DEFAULT_MEMORY_CONFIG =
     \<lparr> maxRecentMessages = 40, memoryBankTokenCap = 100000,
       summarizationTrigger = \<lparr> minMessages = 30, maxTokens = 25000 \<rparr>,
       compressionThreshold = 9 / 10 \<rparr>"

definition createConversation :: "string \<Rightarrow> MemoryConfig \<Rightarrow> ConversationMemory" where
  "createConversation sid cfg =
     \<lparr> sessionId = sid, recentMessages = [],
       memoryBank = \<lparr> summaries = [], totalTokens = 0, version = 1, lastCompressedAt = None \<rparr>,
       config = cfg,
       stats = \<lparr> totalInteractions = 0, summarizationsPerformed = 0, lastSummarizedAt = None \<rparr> \<rparr>"

text \<open>
  The outcome of the two calls of \<open>aiService.generate\<close> that one \<open>addMessage\<close> can
  make, and the clock when each returns: \<open>None\<close> is a rejected promise, \<open>Some t\<close> a
  response whose \<open>text\<close> is \<open>t\<close> (an absent text is the empty string).
\<close>

record AiOutcomes =
  summaryResponse :: "string option"
  summaryTime :: int
  compressionResponse :: "string option"
  compressionTime :: int

text \<open>\<open>toLowerCase()\<close> on code units below 256\<close>

definition toLowerChar :: "char \<Rightarrow> char" where
  "toLowerChar c =
     (let n = (of_char c :: nat)
      in if (65 \<le> n \<and> n \<le> 90) \<or> (192 \<le> n \<and> n \<le> 222 \<and> n \<noteq> 215) then char_of (n + 32)
         else c)"

definition toLowerCase :: "string \<Rightarrow> string" where
  "toLowerCase s = map toLowerChar s"

text \<open>\<open>xs.slice(start, end)\<close> and \<open>xs.slice(start)\<close>: a negative index counts from the end.\<close>

definition sliceIndex :: "'a list \<Rightarrow> int \<Rightarrow> nat" where
  "sliceIndex xs i =
     (if i < 0 then nat (max (int (length xs) + i) 0) else nat (min i (int (length xs))))"

definition jsSlice :: "'a list \<Rightarrow> int \<Rightarrow> int \<Rightarrow> 'a list" where
  "jsSlice xs start end0 = take (sliceIndex xs end0 - sliceIndex xs start) (drop (sliceIndex xs start) xs)"

definition jsSliceFrom :: "'a list \<Rightarrow> int \<Rightarrow> 'a list" where
  "jsSliceFrom xs start = drop (sliceIndex xs start) xs"

text \<open>\<open>x.estimatedTokens || 0\<close>\<close>

definition tokensOr0 :: "'a Counted_scheme \<Rightarrow> int" where
  "tokensOr0 x = (case estimatedTokens x of None \<Rightarrow> 0 | Some n \<Rightarrow> n)"

definition categorizeSummary :: "string \<Rightarrow> summaryCategory" where
  "categorizeSummary summaryText =
     (let lower = toLowerCase summaryText
      in if includesStr lower ''function'' \<or> includesStr lower ''code'' \<or> includesStr lower ''sketch''
         then CodeChange
         else if includesStr lower ''board'' \<or> includesStr lower ''port''
                 \<or> includesStr lower ''configured''
         then Configuration
         else if includesStr lower ''error'' \<or> includesStr lower ''debug'' \<or> includesStr lower ''fix''
         then Debugging
         else if includesStr lower ''learn'' \<or> includesStr lower ''explain''
                 \<or> includesStr lower ''understand''
         then Learning
         else General)"

text \<open>
  \<open>generateSummary\<close>: \<open>null\<close> for no messages, for a failed call and for a blank
  response; otherwise the entry that \<open>withTokenCount(..., 'natural')\<close> returns.
\<close>

definition generateSummary :: "AiOutcomes \<Rightarrow> RawMessage list \<Rightarrow> SummaryEntry option" where
  "generateSummary ai messages =
     (if messages = [] then None
      else case summaryResponse ai of
             None \<Rightarrow> None
           | Some t \<Rightarrow>
               if t = [] \<or> trim t = [] then None
               else Some \<lparr> entryId = SummaryId (summaryTime ai),
                           estimatedTokens = Some (estimate (trim t) (Some Natural)),
                           summary = trim t,
                           originalMessageIds = map entryId messages,
                           createdAt = summaryTime ai,
                           category = categorizeSummary t \<rparr>)"

text \<open>
  \<open>compressMemoryBank\<close>: nothing below three summaries; a failed call or a blank
  response leaves the bank as it is; otherwise the bank holds the meta-summary of
  all but the last summary, and the last summary.
\<close>

definition compressMemoryBank :: "AiOutcomes \<Rightarrow> ConversationMemory \<Rightarrow> ConversationMemory" where
  "compressMemoryBank ai memory =
     (let bank = memoryBank memory
      in if length (summaries bank) < 3 then memory
         else
           (let recentSummary = last (summaries bank);
                oldSummaries = butlast (summaries bank)
            in case compressionResponse ai of
                 None \<Rightarrow> memory
               | Some t \<Rightarrow>
                   if t \<noteq> [] \<and> trim t \<noteq> []
                   then
                     (let compressedSummary =
                            \<lparr> entryId = CompressedId (compressionTime ai),
                              estimatedTokens = Some (estimate (trim t) (Some Natural)),
                              summary = trim t,
                              originalMessageIds = concat (map originalMessageIds oldSummaries),
                              createdAt = compressionTime ai,
                              category = General \<rparr>
                      in memory\<lparr> memoryBank :=
                           bank\<lparr> summaries := [compressedSummary, recentSummary],
                                 totalTokens := tokensOr0 compressedSummary + tokensOr0 recentSummary,
                                 lastCompressedAt := Some (compressionTime ai) \<rparr> \<rparr>)
                   else memory))"

definition checkAndCompressMemoryBank ::
  "AiOutcomes \<Rightarrow> ConversationMemory \<Rightarrow> ConversationMemory" where
  "checkAndCompressMemoryBank ai memory =
     (let threshold = of_int (memoryBankTokenCap (config memory)) * compressionThreshold (config memory)
      in if threshold < of_int (totalTokens (memoryBank memory))
         then compressMemoryBank ai memory
         else memory)"

definition summarizeOldMessages :: "AiOutcomes \<Rightarrow> ConversationMemory \<Rightarrow> ConversationMemory" where
  "summarizeOldMessages ai memory =
     (let recent = recentMessages memory;
          keepCount = (3 * maxRecentMessages (config memory)) div 5;
          toSummarize = jsSlice recent 0 (int (length recent) - keepCount)
      in if toSummarize = [] then memory
         else case generateSummary ai toSummarize of
                None \<Rightarrow> memory
              | Some sm \<Rightarrow>
                  checkAndCompressMemoryBank ai
                    (memory\<lparr> memoryBank :=
                        (memoryBank memory)
                          \<lparr> summaries := summaries (memoryBank memory) @ [sm],
                            totalTokens := totalTokens (memoryBank memory) + tokensOr0 sm \<rparr>,
                      recentMessages := jsSliceFrom recent (int (length recent) - keepCount),
                      stats := (stats memory)
                          \<lparr> summarizationsPerformed := summarizationsPerformed (stats memory) + 1,
                            lastSummarizedAt := Some (summaryTime ai) \<rparr> \<rparr>))"

definition recentTokens :: "ConversationMemory \<Rightarrow> int" where
  "recentTokens memory = foldl (\<lambda>sum msg. sum + tokensOr0 msg) 0 (recentMessages memory)"

definition checkAndSummarize :: "AiOutcomes \<Rightarrow> ConversationMemory \<Rightarrow> ConversationMemory" where
  "checkAndSummarize ai memory =
     (if int (length (recentMessages memory)) < minMessages (summarizationTrigger (config memory))
      then memory
      else
        (let shouldSummarize =
               (maxRecentMessages (config memory) < int (length (recentMessages memory))
                \<or> maxTokens (summarizationTrigger (config memory)) < recentTokens memory)
         in if shouldSummarize then summarizeOldMessages ai memory else memory))"

text \<open>
  \<open>addMessage\<close>: \<open>now\<close> is the clock and \<open>rnd\<close> the random suffix of the message id.
\<close>

definition addMessage ::
  "int \<Rightarrow> string \<Rightarrow> AiOutcomes \<Rightarrow> role \<Rightarrow> string \<Rightarrow> ConversationMemory \<Rightarrow> ConversationMemory" where
  "addMessage now rnd ai r text0 memory =
     (let message = \<lparr> entryId = MsgId now rnd,
                      estimatedTokens = Some (estimate text0 (Some (if r = User then Mixed else Natural))),
                      role = r, msgText = text0, timestamp = now \<rparr>
      in checkAndSummarize ai
           (memory\<lparr> recentMessages := recentMessages memory @ [message],
                    stats := (stats memory)\<lparr> totalInteractions := totalInteractions (stats memory) + 1 \<rparr> \<rparr>))"

section \<open>Error classification and the generation loop (spectre-ai-service-impl.ts)\<close>

datatype jsValue = Undefined | Num int | Str string

fun truthy :: "jsValue \<Rightarrow> bool" where
  "truthy Undefined = False"
| "truthy (Num n) = (n \<noteq> 0)"
| "truthy (Str t) = (t \<noteq> [])"

text \<open>\<open>a || b\<close>\<close>

definition jsOr :: "jsValue \<Rightarrow> jsValue \<Rightarrow> jsValue" where
  "jsOr a b = (if truthy a then a else b)"

text \<open>A thrown \<open>Error\<close>: its name, its message and the three fields that may carry a status.\<close>

record JsError =
  errName :: string
  message :: string
  status :: jsValue
  code :: jsValue
  statusCode :: jsValue

datatype errorCategory = Auth | Rate | Quota | Canceled | Other

record Classification =
  retryable :: bool
  errCategory :: errorCategory
  errMessage :: string

definition asciiLower :: "char \<Rightarrow> char" where
  "asciiLower c = (let n = (of_char c :: nat) in if 65 \<le> n \<and> n \<le> 90 then char_of (n + 32) else c)"

text \<open>\<open>/pat/i.test(s)\<close> for a pattern that is a literal string of ASCII characters\<close>

definition testCI :: "string \<Rightarrow> string \<Rightarrow> bool" where
  "testCI pat s = includesStr (map asciiLower s) (map asciiLower pat)"

text \<open>\<open>/parse.*stream/i.test(s)\<close>: the dot matches no line terminator.\<close>

definition parseThenStream :: "string \<Rightarrow> bool" where
  "parseThenStream s =
     anySuffix (\<lambda>r. startsWith r ''parse'' \<and>
                     includesStr (takeWhile (\<lambda>c. of_char c \<notin> set [10, 13 :: nat]) (drop 5 r)) ''stream'')
       (map asciiLower s)"

definition errStatus :: "JsError \<Rightarrow> jsValue" where
  "errStatus err = jsOr (jsOr (status err) (code err)) (statusCode err)"

definition isAbortMessage :: "string \<Rightarrow> bool" where
  "isAbortMessage m = testCI ''abort'' m"

definition isAuthError :: "JsError \<Rightarrow> bool" where
  "isAuthError err =
     (errStatus err = Num 401 \<or> testCI ''UNAUTHENTICATED'' (message err)
      \<or> testCI ''permission'' (message err) \<or> testCI ''unauthorized'' (message err)
      \<or> testCI ''API key'' (message err))"

definition isQuotaMessage :: "string \<Rightarrow> bool" where
  "isQuotaMessage m = (testCI ''quota'' m \<and> (testCI ''exceed'' m \<or> testCI ''exhaust'' m))"

definition isRateError :: "JsError \<Rightarrow> bool" where
  "isRateError err =
     (errStatus err = Num 429 \<or> testCI ''rate'' (message err)
      \<or> testCI ''RESOURCE_EXHAUSTED'' (message err))"

definition isOverloadMessage :: "string \<Rightarrow> bool" where
  "isOverloadMessage m =
     (testCI ''overloaded'' m \<or> testCI ''503'' m \<or> testCI ''Service Unavailable'' m)"

definition isStreamParseMessage :: "string \<Rightarrow> bool" where
  "isStreamParseMessage m = (testCI ''Failed to parse stream'' m \<or> parseThenStream m)"

definition isFetchMessage :: "string \<Rightarrow> bool" where
  "isFetchMessage m = testCI ''Error fetching'' m"

text \<open>\<open>status && typeof status === 'number' && status >= 500 && status < 600\<close>\<close>

definition is5xx :: "jsValue \<Rightarrow> bool" where
  "is5xx v = (case v of Num n \<Rightarrow> n \<noteq> 0 \<and> 500 \<le> n \<and> n < 600 | _ \<Rightarrow> False)"

definition classifyError :: "JsError \<Rightarrow> Classification" where
  "classifyError err =
     (if isAbortMessage (message err)
      then \<lparr> retryable = False, errCategory = Canceled, errMessage = message err \<rparr>
      else if isAuthError err
      then \<lparr> retryable = False, errCategory = Auth, errMessage = message err \<rparr>
      else if isQuotaMessage (message err)
      then \<lparr> retryable = False, errCategory = Quota, errMessage = message err \<rparr>
      else if isRateError err
      then \<lparr> retryable = True, errCategory = Rate, errMessage = message err \<rparr>
      else if isOverloadMessage (message err)
      then \<lparr> retryable = True, errCategory = Other,
             errMessage = ''Gemini API overloaded - retrying...'' \<rparr>
      else if isStreamParseMessage (message err)
      then \<lparr> retryable = True, errCategory = Other,
             errMessage = ''Network stream error - retrying...'' \<rparr>
      else if isFetchMessage (message err)
      then \<lparr> retryable = True, errCategory = Other,
             errMessage = ''Network connection error - retrying...'' \<rparr>
      else if is5xx (errStatus err)
      then \<lparr> retryable = True, errCategory = Other, errMessage = message err \<rparr>
      else \<lparr> retryable = False, errCategory = Other, errMessage = message err \<rparr>)"

definition NETWORK_RETRY_BASE_DELAY :: int where "NETWORK_RETRY_BASE_DELAY = 1000"
definition SERVICE_OVERLOAD_BASE_DELAY :: int where "SERVICE_OVERLOAD_BASE_DELAY = 3000"
definition maxRetries :: nat where "maxRetries = 4"

text \<open>
  What the \<open>catch\<close> block of \<open>executeStandardGeneration\<close> does with an error, given
  whether the controller is aborted, the two one-shot fallback flags and the attempt
  counter.
\<close>

datatype catchAction =
    ThrowCanceled
  | RetryWithoutThinking
  | RetryWithoutSearch
  | ThrowAuth
  | ThrowQuota
  | RetryAfter bool int
  | ThrowFailed string

definition isServiceIssue :: "string \<Rightarrow> bool" where
  "isServiceIssue m =
     (testCI ''overloaded'' m \<or> testCI ''503'' m \<or> testCI ''Failed to parse stream'' m
      \<or> testCI ''Error fetching'' m)"

text \<open>\<open>err?.message || String(err)\<close>: an \<open>Error\<close> with an empty message prints as its name.\<close>

definition errorText :: "JsError \<Rightarrow> string" where
  "errorText err = (if message err \<noteq> [] then message err else errName err)"

text \<open>\<open>/Unknown name "thinkingConfig"/i\<close> and \<open>/Unknown|google_search|googleSearch|tool/i\<close>\<close>

definition rejectsThinkingConfig :: "string \<Rightarrow> bool" where
  "rejectsThinkingConfig msg =
     testCI (''Unknown name '' @ [CHR 0x22] @ ''thinkingConfig'' @ [CHR 0x22]) msg"

definition rejectsSearchTool :: "string \<Rightarrow> bool" where
  "rejectsSearchTool msg =
     (testCI ''Unknown'' msg \<or> testCI ''google_search'' msg \<or> testCI ''googleSearch'' msg
      \<or> testCI ''tool'' msg)"

definition onError :: "bool \<Rightarrow> bool \<Rightarrow> bool \<Rightarrow> nat \<Rightarrow> JsError \<Rightarrow> catchAction" where
  "onError aborted triedNoThinking triedNoGoogleSearch attempt err =
     (if aborted then ThrowCanceled
      else if \<not> triedNoThinking \<and> rejectsThinkingConfig (errorText err)
      then RetryWithoutThinking
      else if \<not> triedNoGoogleSearch \<and> rejectsSearchTool (errorText err)
      then RetryWithoutSearch
      else if errCategory (classifyError err) = Auth then ThrowAuth
      else if errCategory (classifyError err) = Quota then ThrowQuota
      else if retryable (classifyError err) \<and> attempt < maxRetries
      then RetryAfter (isServiceIssue (errMessage (classifyError err)))
             ((if isServiceIssue (errMessage (classifyError err))
               then SERVICE_OVERLOAD_BASE_DELAY
               else NETWORK_RETRY_BASE_DELAY) * 2 ^ attempt)
      else ThrowFailed (errMessage (classifyError err)))"

subsection \<open>Stream events\<close>

text \<open>
  The text of a delta is a chunk of the answer, the pacing notice
  \<open>Pacing ${(wait / 1000).toFixed(2)}s...\<close> or the retry notice
  \<open>Service overloaded|Network error - retrying in ...s...\<close>; the notices are kept by
  their parts. Each event carries the request key.
\<close>

datatype deltaText = ChunkDelta string | PacingNotice int | RetryNotice bool int

datatype streamEvent = Delta string deltaText | Done string | ErrorEvent string string

record ChunkPart =
  partFunctionCall :: bool
  partText :: string

record Chunk =
  chunkText :: string
  chunkParts :: "ChunkPart list"

text \<open>
  The \<open>for await\<close> loop of \<open>streamingCallImpl\<close> over the chunks it receives: the events,
  the accumulated text and \<open>hasFunctionCalls\<close>.
\<close>

fun streamChunks :: "string \<Rightarrow> string \<Rightarrow> bool \<Rightarrow> Chunk list \<Rightarrow> streamEvent list \<times> string \<times> bool" where
  "streamChunks key full hasFc [] = ([], full, hasFc)"
| "streamChunks key full hasFc (c # cs) =
     (let hasFc' = (hasFc \<or> list_ex partFunctionCall (chunkParts c));
          texts = (if \<not> hasFc' then (if chunkText c \<noteq> [] then [chunkText c] else [])
                   else filter (\<lambda>t. t \<noteq> []) (map partText (chunkParts c)));
          (evs, full', hasFc'') = streamChunks key (full @ concat texts) hasFc' cs
      in (map (\<lambda>t. Delta key (ChunkDelta t)) texts @ evs, full', hasFc''))"

definition pacing :: "string \<Rightarrow> string \<Rightarrow> int \<Rightarrow> int \<Rightarrow> streamEvent list" where
  "pacing m key lastCall now =
     (let minSpacing = (if isFlashLite m then MIN_SPACING_MS_FLASH_LITE else MIN_SPACING_MS_FLASH);
          since = now - lastCall
      in if since < minSpacing then [Delta key (PacingNotice (minSpacing - since))] else [])"

text \<open>
  One pass of the \<open>while (true)\<close> loop, as the environment determines it: a call of
  \<open>cancel\<close> for this request or a timeout that aborts the controller while the loop
  is suspended, the clock at \<open>pacing\<close> and after it, the chunks that the stream
  delivers, and the error that the call or the stream throws, if any.
\<close>

datatype interruption = NoInterruption | CancelBeforePacing | CancelInStream nat | TimeoutInStream nat

record Attempt =
  interrupted :: interruption
  pacingNow :: int
  callNow :: int
  chunks :: "Chunk list"
  failure :: "JsError option"

datatype execResult = Resolved string | Rejected string

definition canceledError :: JsError where
  "canceledError = \<lparr> errName = ''Error'', message = ''canceled'', status = Undefined,
                     code = Undefined, statusCode = Undefined \<rparr>"

definition noContentError :: JsError where
  "noContentError = \<lparr> errName = ''Error'', message = ''Gemini API returned no content.'',
                      status = Undefined, code = Undefined, statusCode = Undefined \<rparr>"

text \<open>
  One call of \<open>streamingCall\<close>: the events sent while it runs and the text it returns
  or the error it throws. The deltas of the chunks come first; a \<open>cancel\<close> that
  interrupts the stream sends its error event then; the call sends \<open>done\<close> when it has
  content and the controller is not aborted. With an aborted controller the call
  throws, whatever the stream delivered.
\<close>

definition streamingCallImpl :: "string \<Rightarrow> Attempt \<Rightarrow> streamEvent list \<times> (JsError + string)" where
  "streamingCallImpl key a =
     (let n = (case interrupted a of
                 CancelInStream k \<Rightarrow> k
               | TimeoutInStream k \<Rightarrow> k
               | _ \<Rightarrow> length (chunks a));
          streamed = (if interrupted a = CancelBeforePacing then ([], [], False)
                      else streamChunks key [] False (take n (chunks a)));
          full = fst (snd streamed);
          hasFunctionCalls = snd (snd streamed);
          canceled = (case interrupted a of
                        CancelInStream k \<Rightarrow> [ErrorEvent key ''Canceled'']
                      | _ \<Rightarrow> [])
      in if interrupted a \<noteq> NoInterruption then (fst streamed @ canceled, Inl canceledError)
         else case failure a of
                Some err \<Rightarrow> (fst streamed, Inl err)
              | None \<Rightarrow>
                  if full = [] \<and> \<not> hasFunctionCalls then (fst streamed, Inl noContentError)
                  else (fst streamed @ [Done key], Inr full))"

text \<open>
  \<open>executeStandardGeneration\<close> for one request with key \<open>key\<close> on model \<open>m\<close>: the
  events it sends to \<open>onStream\<close>, with the one that \<open>cancel\<close> sends for a running
  request, and how the promise settles. \<open>lastCall\<close> is \<open>lastCallAt[m] || 0\<close>. A
  \<open>cancel\<close> before the pacing of a pass sends its error event first. The result is
  \<open>None\<close> when the list of passes ends before the loop does.
\<close>

fun executeStandardGeneration ::
  "string \<Rightarrow> string \<Rightarrow> nat \<Rightarrow> bool \<Rightarrow> bool \<Rightarrow> int \<Rightarrow> Attempt list
   \<Rightarrow> (streamEvent list \<times> execResult) option" where
  "executeStandardGeneration key m attempt triedNoThinking triedNoGoogleSearch lastCall [] = None"
| "executeStandardGeneration key m attempt triedNoThinking triedNoGoogleSearch lastCall (a # rest) =
     (let evs = (if interrupted a = CancelBeforePacing then [ErrorEvent key ''Canceled''] else [])
                @ pacing m key lastCall (pacingNow a)
                @ fst (streamingCallImpl key a)
      in case snd (streamingCallImpl key a) of
           Inr res \<Rightarrow> Some (evs, Resolved res)
         | Inl err \<Rightarrow>
             (case onError (interrupted a \<noteq> NoInterruption) triedNoThinking triedNoGoogleSearch
                     attempt err of
                ThrowCanceled \<Rightarrow> Some (evs, Rejected ''Generation canceled.'')
              | RetryWithoutThinking \<Rightarrow>
                  map_option (\<lambda>out. (evs @ fst out, snd out))
                    (executeStandardGeneration key m attempt True triedNoGoogleSearch (callNow a) rest)
              | RetryWithoutSearch \<Rightarrow>
                  map_option (\<lambda>out. (evs @ fst out, snd out))
                    (executeStandardGeneration key m attempt triedNoThinking True (callNow a) rest)
              | ThrowAuth \<Rightarrow> Some (evs, Rejected ''Gemini authentication failed. Check API key.'')
              | ThrowQuota \<Rightarrow> Some (evs, Rejected ''Remote quota exhausted.'')
              | RetryAfter svc backoff \<Rightarrow>
                  map_option (\<lambda>out. (evs @ Delta key (RetryNotice svc backoff) # fst out, snd out))
                    (executeStandardGeneration key m (Suc attempt) triedNoThinking
                       triedNoGoogleSearch (callNow a) rest)
              | ThrowFailed msg \<Rightarrow> Some (evs, Rejected (''Gemini request failed: '' @ msg))))"

text \<open>
  \<open>cancel(abortKey)\<close> on the service: a registered controller is aborted and removed
  and the error event is sent; the first queued request with the key is removed.
\<close>

definition cancel :: "int \<Rightarrow> int \<Rightarrow> string \<Rightarrow> service \<Rightarrow> service \<times> streamEvent list" where
  "cancel now pm k s =
     (let running = (k \<in> set (abortControllers s));
          s1 = (if running then s\<lparr> abortControllers := removeAll k (abortControllers s) \<rparr> else s);
          evs = (if running then [ErrorEvent k ''Canceled''] else []);
          before = takeWhile (\<lambda>q. abortKey q \<noteq> k) (queue s1);
          after = dropWhile (\<lambda>q. abortKey q \<noteq> k) (queue s1)
      in (case after of
            [] \<Rightarrow> s1
          | entry # rest \<Rightarrow> pushQuotaUpdate now pm (s1\<lparr> queue := before @ rest \<rparr>),
          evs))"

section \<open>Runs of the scheduler\<close>

text \<open>
  What happens to the service, one synchronous turn at a time: a request is submitted,
  the queue timer fires, the executor records the time of a call, a response is
  reconciled.
\<close>

datatype schedulerEvent =
    Submitted int int string int string
  | QueueCycle int int
  | CallMade int string
  | Responded int int string int SpectreAiResponse

fun step :: "schedulerEvent \<Rightarrow> service \<Rightarrow> service" where
  "step (Submitted now pm m r k) s = generate now pm m r k s"
| "step (QueueCycle now pm) s = runQueueCycle now pm s"
| "step (CallMade now m) s = setLastCallAt now m s"
| "step (Responded now pm m r res) s = fst (afterResponse now pm m r res s)"

fun run :: "schedulerEvent list \<Rightarrow> service \<Rightarrow> service" where
  "run [] s = s"
| "run (e # es) s = run es (step e s)"

text \<open>The clock reading of an event.\<close>

fun eventTime :: "schedulerEvent \<Rightarrow> int" where
  "eventTime (Submitted now pm m r k) = now"
| "eventTime (QueueCycle now pm) = now"
| "eventTime (CallMade now m) = now"
| "eventTime (Responded now pm m r res) = now"

text \<open>
  From \<open>s\<close> to \<open>s'\<close> the keys of the token windows stay distinct and every entry
  that is not older than 60 seconds at \<open>now\<close> stays in its window.
\<close>

definition entriesKept :: "int \<Rightarrow> service \<Rightarrow> service \<Rightarrow> bool" where
  "entriesKept now s s' =
     (distinct (map fst (tokenWindows s)) \<longrightarrow>
        distinct (map fst (tokenWindows s'))
        \<and> (\<forall>k e. e \<in> set (getList (tokenWindows s) k) \<and> now - ROLLING_WINDOW_MS \<le> time e
                   \<longrightarrow> e \<in> set (getList (tokenWindows s') k)))"

text \<open>
  From \<open>s\<close> to \<open>s'\<close> the first \<open>n\<close> requests of the queue were started, in their
  order and possibly with other requests between them, and the others are still at the
  head of the queue.
\<close>

definition queueOrderKept :: "service \<Rightarrow> service \<Rightarrow> bool" where
  "queueOrderKept s s' =
     (\<exists>n zs news. n \<le> length (queue s) \<and> queue s' = drop n (queue s) @ zs
        \<and> started s' = started s @ news \<and> subseq (take n (queue s)) news)"

section \<open>Scenarios\<close>

definition FLASH :: string where "FLASH = ''gemini-2.5-flash''"
definition FLASH_LITE :: string where "FLASH_LITE = ''gemini-2.5-flash-lite''"

text \<open>A clock reading (2023-11-14 22:13:20 UTC) and the Pacific midnight before it.\<close>

definition T0 :: int where "T0 = 1700000000000"
definition PM0 :: int where "PM0 = 1699948800000"

text \<open>One flash-lite request that reserves the whole capacity, on a fresh service.\<close>

definition liteFull :: service where
  "liteFull = generate T0 PM0 FLASH_LITE 250000 ''lite-1'' initial"

text \<open>Fifteen, then sixteen flash-lite requests submitted in the same millisecond.\<close>

definition burstKeys :: "string list" where
  "burstKeys = [''r01'', ''r02'', ''r03'', ''r04'', ''r05'', ''r06'', ''r07'', ''r08'', ''r09'',
                ''r10'', ''r11'', ''r12'', ''r13'', ''r14'', ''r15'']"

definition burst15 :: service where
  "burst15 = foldl (\<lambda>s k. generate T0 PM0 FLASH_LITE 1000 k s) initial burstKeys"

definition burst16 :: service where
  "burst16 = generate T0 PM0 FLASH_LITE 1000 ''r16'' burst15"

text \<open>The service after the requests with keys \<open>ks\<close> of such a burst were all started.\<close>

definition burstState :: "string list \<Rightarrow> service" where
  "burstState ks =
     \<lparr> abortControllers = rev ks,
       recentCalls = [(FLASH_LITE, replicate (length ks) T0)],
       dailyCalls = [(FLASH_LITE, replicate (length ks) T0)],
       lastCallAt = [],
       tokenWindows =
         [(FLASH_LITE, replicate (length ks) \<lparr> time = T0, tokens = 1000, reservation = True \<rparr>)],
       cachedRpmLists = [(FLASH_LITE, [T0])],
       cachedDailyLists = [(FLASH_LITE, [T0])],
       queue = [], processing = True, lastUsedModel = FLASH_LITE,
       started = map (\<lambda>k. \<lparr> reservationTokens = 1000, model = FLASH_LITE, abortKey = k,
                             enqueuedAt = T0 \<rparr>) ks \<rparr>"

text \<open>
  A flash request of 100000 tokens is started and makes its call; ten seconds later
  request A of 200000 tokens is submitted, and one millisecond after it request B of
  1000 tokens.
\<close>

definition overtaken :: service where
  "overtaken =
     generate (T0 + 10001) PM0 FLASH 1000 ''B''
       (generate (T0 + 10000) PM0 FLASH 200000 ''A''
          (setLastCallAt T0 FLASH (generate T0 PM0 FLASH 100000 ''first'' initial)))"

text \<open>A reservation of 1000 tokens whose response, with 400 prompt tokens, comes 70 s later.\<close>

definition lateAdjust :: service where
  "lateAdjust =
     adjustReservation (T0 + 70000) PM0 FLASH 400 1000 (recordReservation T0 PM0 FLASH 1000 initial)"

text \<open>A reservation of 1000 tokens on a fresh service, and a response without usage metadata.\<close>

definition reserved :: service where
  "reserved = recordReservation T0 PM0 FLASH 1000 initial"

definition noUsage :: SpectreAiResponse where
  "noUsage = \<lparr> responseText = ''Done.'',
               meta = Some \<lparr> promptTokens = None, usedReservation = None \<rparr> \<rparr>"

text \<open>
  The default configuration with a token threshold of 100, a summarizer that answers,
  and conversations of user messages of 20 characters (5 tokens each).
\<close>

definition lowTokenConfig :: MemoryConfig where
  "lowTokenConfig =
     DEFAULT_MEMORY_CONFIG\<lparr> summarizationTrigger := \<lparr> minMessages = 30, maxTokens = 100 \<rparr> \<rparr>"

definition summarizerOk :: AiOutcomes where
  "summarizerOk =
     \<lparr> summaryResponse = Some ''Goal: blink an LED'', summaryTime = T0 + 100000,
       compressionResponse = Some '' Project: LED blinker '', compressionTime = T0 + 200000 \<rparr>"

text \<open>A summarizer whose answer to the compression prompt is one blank.\<close>

definition summarizerBlank :: AiOutcomes where
  "summarizerBlank = summarizerOk\<lparr> compressionResponse := Some '' '' \<rparr>"

fun addUserMessages :: "nat \<Rightarrow> ConversationMemory \<Rightarrow> ConversationMemory" where
  "addUserMessages 0 memory = memory"
| "addUserMessages (Suc n) memory =
     addMessage (T0 + int n) ''x'' summarizerOk User ''aaaaaaaaaaaaaaaaaaaa''
       (addUserMessages n memory)"

definition twentyFour :: ConversationMemory where
  "twentyFour = addUserMessages 24 (createConversation ''session'' lowTokenConfig)"

definition twentyFive :: ConversationMemory where
  "twentyFive = addMessage (T0 + 24) ''x'' summarizerOk User ''aaaaaaaaaaaaaaaaaaaa'' twentyFour"

definition twentyNine :: ConversationMemory where
  "twentyNine = addUserMessages 29 (createConversation ''session'' lowTokenConfig)"

text \<open>A memory bank with given summaries.\<close>

definition summaryOf :: "int \<Rightarrow> string \<Rightarrow> SummaryEntry" where
  "summaryOf n t =
     \<lparr> entryId = SummaryId n, estimatedTokens = Some (estimate t (Some Natural)),
       summary = t, originalMessageIds = [MsgId n ''x''], createdAt = n, category = General \<rparr>"

definition bankOf :: "SummaryEntry list \<Rightarrow> ConversationMemory" where
  "bankOf ss =
     (createConversation ''session'' DEFAULT_MEMORY_CONFIG)
       \<lparr> memoryBank := \<lparr> summaries = ss, totalTokens = foldl (\<lambda>n x. n + tokensOr0 x) 0 ss,
                         version = 1, lastCompressedAt = None \<rparr> \<rparr>"

text \<open>Thrown errors, one for each class of \<open>classifyError\<close>.\<close>

definition thrown :: "string \<Rightarrow> jsValue \<Rightarrow> JsError" where
  "thrown msg st =
     \<lparr> errName = ''Error'', message = msg, status = st, code = Undefined, statusCode = Undefined \<rparr>"


definition authError :: JsError where
  "authError = thrown ''API key not valid. Please pass a valid API key.'' (Num 400)"





definition fetchError :: JsError where
  "fetchError = thrown ''Error fetching from https://generativelanguage.googleapis.com'' Undefined"




text \<open>
  Passes of the generation loop: a call that fails with \<open>authError\<close>; a call that
  fails with \<open>fetchError\<close>; and the pass after it, reached 1100 ms after that call,
  when \<open>cancel\<close> has run during the backoff delay.
\<close>

definition authFailure :: Attempt where
  "authFailure = \<lparr> interrupted = NoInterruption, pacingNow = T0, callNow = T0, chunks = [],
                   failure = Some authError \<rparr>"

definition fetchFailure :: Attempt where
  "fetchFailure = \<lparr> interrupted = NoInterruption, pacingNow = T0, callNow = T0, chunks = [],
                    failure = Some fetchError \<rparr>"

definition canceledRetry :: Attempt where
  "canceledRetry = \<lparr> interrupted = CancelBeforePacing, pacingNow = T0 + 1100,
                     callNow = T0 + 6000, chunks = [], failure = None \<rparr>"



section \<open>Properties\<close>

subsection \<open>Facts about the ledger\<close>

lemma cleanWindows_queue [simp]: "queue (cleanWindows now pm s) = queue s"
  by (simp add: cleanWindows_def Let_def)

lemma cleanWindows_started [simp]: "started (cleanWindows now pm s) = started s"
  by (simp add: cleanWindows_def Let_def)

lemma cleanWindows_tokenWindows:
  "tokenWindows (cleanWindows now pm s) =
     cleanDict (\<lambda>e. time e < now - ROLLING_WINDOW_MS) (tokenWindows s)"
  by (simp add: cleanWindows_def Let_def)

lemma canStartNow_state: "canStartNow now pm m r s = (ok, s1) \<Longrightarrow> s1 = cleanWindows now pm s"
  by (auto simp: canStartNow_def Let_def)

text \<open>The two queue operations without local bindings, for evaluation.\<close>

lemma generate_code [code]:
  "generate now pm m r k s =
     scheduleQueueProcessing
       (if fst (canStartNow now pm (mapModel m) r s)
        then startRequest now pm
               \<lparr> reservationTokens = r, model = mapModel m, abortKey = k, enqueuedAt = now \<rparr>
               (cleanWindows now pm s)
        else pushQuotaUpdate now pm
               ((cleanWindows now pm s)
                  \<lparr> queue := queue (cleanWindows now pm s)
                       @ [\<lparr> reservationTokens = r, model = mapModel m, abortKey = k,
                            enqueuedAt = now \<rparr>] \<rparr>))"
  by (auto simp: generate_def Let_def split: prod.splits dest: canStartNow_state)

lemma runQueueCycle_code [code]:
  "runQueueCycle now pm s =
     (case queue (cleanWindows now pm s) of
        [] \<Rightarrow> cleanWindows now pm s
      | next # rest \<Rightarrow>
          if fst (canStartNow now pm (model next) (reservationTokens next) (cleanWindows now pm s))
          then pushQuotaUpdate now pm
                 (startRequest now pm next
                    ((cleanWindows now pm (cleanWindows now pm s))\<lparr> queue := rest \<rparr>))
          else cleanWindows now pm (cleanWindows now pm s))
     \<lparr> processing := False \<rparr>"
  by (auto simp: runQueueCycle_def Let_def split: prod.splits list.splits dest: canStartNow_state)

lemma startRequest_queue [simp]: "queue (startRequest now pm p s) = queue s"
  by (simp add: startRequest_def pushQuotaUpdate_def recordRpm_def recordReservation_def Let_def)

lemma startRequest_started [simp]: "started (startRequest now pm p s) = started s @ [p]"
  by (simp add: startRequest_def pushQuotaUpdate_def recordRpm_def recordReservation_def Let_def)

lemma scheduleQueueProcessing_queue [simp]: "queue (scheduleQueueProcessing s) = queue s"
  by (simp add: scheduleQueueProcessing_def)

lemma scheduleQueueProcessing_started [simp]: "started (scheduleQueueProcessing s) = started s"
  by (simp add: scheduleQueueProcessing_def)

lemma map_of_cleanDict_None: "map_of d k = None \<Longrightarrow> map_of (cleanDict ex d) k = None"
  by (induction d) auto

text \<open>What \<open>cleanWindows\<close> leaves of one list, when the keys are distinct.\<close>

lemma getList_cleanDict:
  "distinct (map fst d) \<Longrightarrow>
   getList (cleanDict ex d) k =
     (if needsClean ex (getList d k) then filter (\<lambda>e. \<not> ex e) (getList d k) else getList d k)"
proof (induction d)
  case Nil
  then show ?case by (simp add: getList_def needsClean_def)
next
  case (Cons a rest)
  obtain k' l where a: "a = (k', l)" by (cases a)
  have nk: "map_of rest k' = None" using Cons.prems a by (simp add: map_of_eq_None_iff)
  show ?case
  proof (cases "k = k'")
    case True
    then show ?thesis using nk map_of_cleanDict_None[OF nk, of ex] a
      by (auto simp: getList_def)
  next
    case False
    then show ?thesis using Cons a by (auto simp: getList_def)
  qed
qed

lemma distinct_cleanDict: "distinct (map fst d) \<Longrightarrow> distinct (map fst (cleanDict ex d))"
proof (induction d)
  case Nil
  then show ?case by simp
next
  case (Cons a rest)
  obtain k l where a: "a = (k, l)" by (cases a)
  have "map_of rest k = None" using Cons.prems a by (simp add: map_of_eq_None_iff)
  then have "map_of (cleanDict ex rest) k = None" by (rule map_of_cleanDict_None)
  then have "k \<notin> fst ` set (cleanDict ex rest)" by (simp add: map_of_eq_None_iff)
  then show ?case using Cons a by auto
qed

lemma distinct_pushTo: "distinct (map fst d) \<Longrightarrow> distinct (map fst (pushTo k v d))"
  by (simp add: pushTo_def distinct_update)

lemma getList_pushTo_same: "getList (pushTo k v d) k = getList d k @ [v]"
  by (simp add: pushTo_def getList_def update_conv')

lemma subseq_if_filter: "subseq (if c then filter P xs else xs) xs"
  by simp

lemma window_after_push:
  assumes "distinct (map fst d)" and "\<not> ex e"
  shows "getList (cleanDict ex (pushTo k e d)) k =
           (if needsClean ex (getList d k @ [e]) then filter (\<lambda>x. \<not> ex x) (getList d k)
            else getList d k) @ [e]"
  using assms by (simp add: getList_cleanDict distinct_pushTo getList_pushTo_same)

text \<open>
  The keys of \<open>tokenWindows\<close> are distinct on a fresh service, and the operations on
  the token windows keep them distinct.
\<close>

lemma distinct_initial: "distinct (map fst (tokenWindows initial))"
  by (simp add: initial_def)

lemma distinct_cleanWindows:
  "distinct (map fst (tokenWindows s)) \<Longrightarrow> distinct (map fst (tokenWindows (cleanWindows now pm s)))"
  by (simp add: cleanWindows_tokenWindows distinct_cleanDict)

lemma distinct_recordReservation:
  "distinct (map fst (tokenWindows s)) \<Longrightarrow>
   distinct (map fst (tokenWindows (recordReservation now pm m n s)))"
  by (simp add: recordReservation_def cleanWindows_tokenWindows distinct_cleanDict distinct_pushTo)

lemma distinct_adjustReservation:
  "distinct (map fst (tokenWindows s)) \<Longrightarrow>
   distinct (map fst (tokenWindows (adjustReservation now pm m a r s)))"
  by (simp add: adjustReservation_def cleanWindows_tokenWindows distinct_cleanDict distinct_pushTo
                Let_def)

lemma distinct_startRequest:
  "distinct (map fst (tokenWindows s)) \<Longrightarrow>
   distinct (map fst (tokenWindows (startRequest now pm p s)))"
  by (simp add: startRequest_def pushQuotaUpdate_def recordRpm_def Let_def
                cleanWindows_tokenWindows distinct_cleanDict recordReservation_def distinct_pushTo)

subsection \<open>Entries that stay in their window\<close>

text \<open>
  Every operation of the scheduler keeps the keys of the token windows distinct and
  keeps the entries that are not older than 60 seconds when it runs.
\<close>

lemma getList_pushTo_other: "k' \<noteq> k \<Longrightarrow> getList (pushTo k v d) k' = getList d k'"
  by (simp add: pushTo_def getList_def update_conv')

lemma mem_pushTo: "e \<in> set (getList d k) \<Longrightarrow> e \<in> set (getList (pushTo k' v d) k)"
  by (cases "k = k'") (simp_all add: getList_pushTo_same getList_pushTo_other)

lemma entriesKept_refl: "entriesKept now s s"
  by (simp add: entriesKept_def)

lemma entriesKept_trans: "entriesKept now s s1 \<Longrightarrow> entriesKept now s1 s2 \<Longrightarrow> entriesKept now s s2"
  unfolding entriesKept_def by blast

lemma entriesKept_same_windows: "tokenWindows s' = tokenWindows s \<Longrightarrow> entriesKept now s s'"
  by (simp add: entriesKept_def)

lemma entriesKept_cleanWindows: "entriesKept now s (cleanWindows now pm s)"
  unfolding entriesKept_def
  by (auto simp: cleanWindows_tokenWindows distinct_cleanDict getList_cleanDict)

lemma entriesKept_push:
  "entriesKept now s (s\<lparr> tokenWindows := pushTo m v (tokenWindows s) \<rparr>)"
  unfolding entriesKept_def by (simp add: distinct_pushTo mem_pushTo)

lemma entriesKept_recordReservation: "entriesKept now s (recordReservation now pm m n s)"
  unfolding recordReservation_def
  by (rule entriesKept_trans[OF entriesKept_push entriesKept_cleanWindows])

lemma entriesKept_adjustReservation: "entriesKept now s (adjustReservation now pm m a r s)"
proof (cases "a - r = 0")
  case True
  then show ?thesis by (simp add: adjustReservation_def entriesKept_refl)
next
  case False
  then have "adjustReservation now pm m a r s
               = cleanWindows now pm
                   (s\<lparr> tokenWindows := pushTo m \<lparr> time = now, tokens = a - r, reservation = False \<rparr>
                                           (tokenWindows s) \<rparr>)"
    by (simp add: adjustReservation_def Let_def)
  then show ?thesis
    using entriesKept_trans[OF entriesKept_push entriesKept_cleanWindows] by simp
qed

lemma entriesKept_startRequest: "entriesKept now s (startRequest now pm p s)"
proof -
  let ?s1 = "s\<lparr> lastUsedModel := model p,
                 abortControllers := abortKey p # removeAll (abortKey p) (abortControllers s),
                 started := started s @ [p] \<rparr>"
  let ?s2 = "recordReservation now pm (model p) (reservationTokens p) ?s1"
  let ?s3 = "recordRpm now pm (model p) ?s2"
  have a: "entriesKept now s ?s1" by (rule entriesKept_same_windows) simp
  have b: "entriesKept now ?s1 ?s2" by (rule entriesKept_recordReservation)
  have c: "entriesKept now ?s2 ?s3"
    by (rule entriesKept_same_windows) (simp add: recordRpm_def Let_def)
  have d: "entriesKept now ?s3 (pushQuotaUpdate now pm ?s3)"
    unfolding pushQuotaUpdate_def by (rule entriesKept_cleanWindows)
  have "startRequest now pm p s = pushQuotaUpdate now pm ?s3"
    by (simp add: startRequest_def Let_def)
  then show ?thesis
    using entriesKept_trans[OF entriesKept_trans[OF entriesKept_trans[OF a b] c] d] by simp
qed

lemma entriesKept_schedule: "entriesKept now s (scheduleQueueProcessing s)"
  by (rule entriesKept_same_windows) (simp add: scheduleQueueProcessing_def)

lemma entriesKept_generate: "entriesKept now s (generate now pm m r k s)"
proof -
  let ?c = "cleanWindows now pm s"
  let ?p = "\<lparr> reservationTokens = r, model = mapModel m, abortKey = k, enqueuedAt = now \<rparr>"
  have c: "entriesKept now s ?c" by (rule entriesKept_cleanWindows)
  show ?thesis
  proof (cases "fst (canStartNow now pm (mapModel m) r s)")
    case True
    then have e: "generate now pm m r k s = scheduleQueueProcessing (startRequest now pm ?p ?c)"
      by (simp add: generate_code)
    show ?thesis unfolding e
      by (rule entriesKept_trans[OF entriesKept_trans[OF c entriesKept_startRequest] entriesKept_schedule])
  next
    case False
    let ?q = "?c\<lparr> queue := queue ?c @ [?p] \<rparr>"
    from False have e: "generate now pm m r k s = scheduleQueueProcessing (pushQuotaUpdate now pm ?q)"
      by (simp add: generate_code)
    have q: "entriesKept now ?c ?q" by (rule entriesKept_same_windows) simp
    have pq: "entriesKept now ?q (pushQuotaUpdate now pm ?q)"
      unfolding pushQuotaUpdate_def by (rule entriesKept_cleanWindows)
    show ?thesis unfolding e
      by (rule entriesKept_trans[OF entriesKept_trans[OF entriesKept_trans[OF c q] pq] entriesKept_schedule])
  qed
qed

lemma entriesKept_runQueueCycle: "entriesKept now s (runQueueCycle now pm s)"
proof -
  let ?c = "cleanWindows now pm s"
  let ?cc = "cleanWindows now pm ?c"
  have c: "entriesKept now s ?c" by (rule entriesKept_cleanWindows)
  have cc: "entriesKept now s ?cc" by (rule entriesKept_trans[OF c entriesKept_cleanWindows])
  have fin: "\<And>t. entriesKept now s t \<Longrightarrow> entriesKept now s (t\<lparr> processing := False \<rparr>)"
    by (erule entriesKept_trans) (rule entriesKept_same_windows, simp)
  show ?thesis
  proof (cases "queue ?c")
    case Nil
    then have "runQueueCycle now pm s = ?c\<lparr> processing := False \<rparr>"
      by (simp add: runQueueCycle_code)
    then show ?thesis using fin[OF c] by simp
  next
    case (Cons nxt rest)
    show ?thesis
    proof (cases "fst (canStartNow now pm (model nxt) (reservationTokens nxt) ?c)")
      case True
      let ?q = "?cc\<lparr> queue := rest \<rparr>"
      have e: "runQueueCycle now pm s
                 = (pushQuotaUpdate now pm (startRequest now pm nxt ?q))\<lparr> processing := False \<rparr>"
        using Cons True by (simp add: runQueueCycle_code)
      have q: "entriesKept now ?cc ?q" by (rule entriesKept_same_windows) simp
      have st: "entriesKept now ?q (startRequest now pm nxt ?q)" by (rule entriesKept_startRequest)
      have pq: "entriesKept now (startRequest now pm nxt ?q)
                  (pushQuotaUpdate now pm (startRequest now pm nxt ?q))"
        unfolding pushQuotaUpdate_def by (rule entriesKept_cleanWindows)
      have "entriesKept now s (pushQuotaUpdate now pm (startRequest now pm nxt ?q))"
        by (rule entriesKept_trans[OF entriesKept_trans[OF entriesKept_trans[OF cc q] st] pq])
      then show ?thesis unfolding e by (rule fin)
    next
      case False
      have e: "runQueueCycle now pm s = ?cc\<lparr> processing := False \<rparr>"
        using Cons False by (simp add: runQueueCycle_code)
      show ?thesis unfolding e by (rule fin[OF cc])
    qed
  qed
qed

lemma entriesKept_afterResponse: "entriesKept now s (fst (afterResponse now pm m r res s))"
proof (cases "0 < actualPromptTokens res")
  case True
  then have e: "fst (afterResponse now pm m r res s)
                  = cleanWindows now pm (adjustReservation now pm m (actualPromptTokens res) r s)"
    by (simp add: afterResponse_def pushQuotaUpdate_def Let_def)
  show ?thesis unfolding e
    by (rule entriesKept_trans[OF entriesKept_adjustReservation entriesKept_cleanWindows])
next
  case False
  then have e: "fst (afterResponse now pm m r res s) = cleanWindows now pm s"
    by (simp add: afterResponse_def pushQuotaUpdate_def Let_def)
  show ?thesis unfolding e by (rule entriesKept_cleanWindows)
qed

lemma entriesKept_step: "entriesKept (eventTime ev) s (step ev s)"
proof (cases ev)
  case (Submitted now pm m r k)
  then show ?thesis by (simp add: entriesKept_generate)
next
  case (QueueCycle now pm)
  then show ?thesis by (simp add: entriesKept_runQueueCycle)
next
  case (CallMade now m)
  then show ?thesis by (simp add: entriesKept_same_windows setLastCallAt_def)
next
  case (Responded now pm m r res)
  then show ?thesis by (simp add: entriesKept_afterResponse)
qed

lemma entry_kept_run:
  assumes "distinct (map fst (tokenWindows s))"
      and "e \<in> set (getList (tokenWindows s) k)"
      and "\<forall>ev\<in>set es. eventTime ev - ROLLING_WINDOW_MS \<le> time e"
  shows "distinct (map fst (tokenWindows (run es s))) \<and> e \<in> set (getList (tokenWindows (run es s)) k)"
  using assms
proof (induction es arbitrary: s)
  case Nil
  then show ?case by simp
next
  case (Cons ev es)
  have st: "entriesKept (eventTime ev) s (step ev s)" by (rule entriesKept_step)
  have t: "eventTime ev - ROLLING_WINDOW_MS \<le> time e" using Cons.prems(3) by simp
  have d: "distinct (map fst (tokenWindows (step ev s)))"
    using st Cons.prems(1) unfolding entriesKept_def by blast
  have m: "e \<in> set (getList (tokenWindows (step ev s)) k)"
    using st Cons.prems(1,2) t unfolding entriesKept_def by blast
  show ?case using Cons.IH[OF d m] Cons.prems(3) by simp
qed

subsection \<open>The token ceiling\<close>

lemma foldl_add_sum:
  "foldl (\<lambda>acc x. acc + f x) a xs = a + sum_list (map f xs)" for a :: int
  by (induction xs arbitrary: a) simp_all

text \<open>The tokens in use are the sum over the windows of all models.\<close>

lemma currentUsedTokens_sum:
  "currentUsedTokens s = (\<Sum>kw\<leftarrow>tokenWindows s. \<Sum>e\<leftarrow>snd kw. tokens e)"
  by (simp add: currentUsedTokens_def windowTokens_def foldl_add_sum)

text \<open>
  Claim C1: the token-ceiling condition of an admission check counts only the entries
  of the requested model; with 250000 tokens in the window of one model and an empty
  window for the other, a request for the other model passes the condition.

  The code sums the windows of all models. After one flash-lite request that reserves
  250000 tokens, the flash window is empty, and a flash request of one token is refused
  ten milliseconds later, while a flash request of no tokens is accepted: the refusal
  comes from the token condition alone.
\<close>

theorem C1_ceiling_counts_other_model:
  "getList (tokenWindows liteFull) FLASH_LITE
     = [\<lparr> time = 1700000000000, tokens = 250000, reservation = True \<rparr>]
   \<and> getList (tokenWindows liteFull) FLASH = []
   \<and> fst (canStartNow (T0 + 10) PM0 FLASH 1 liteFull) = False
   \<and> fst (canStartNow (T0 + 10) PM0 FLASH 0 liteFull) = True"
  by code_simp

subsection \<open>Order of admission\<close>

text \<open>
  Claim C2: of two requests for the same model, the one submitted first is started no
  later than the other; a new request is never started ahead of a queued one.

  Counterexample: request A (200000 tokens) is queued because 100000 tokens are in
  use; request B (1000 tokens), submitted one millisecond later for the same model, is
  started at once, and A is still in the queue.
\<close>

theorem C2_counterexample:
  "queue overtaken
     = [\<lparr> reservationTokens = 200000, model = ''gemini-2.5-flash'', abortKey = ''A'',
          enqueuedAt = 1700000010000 \<rparr>]
   \<and> started overtaken
     = [\<lparr> reservationTokens = 100000, model = ''gemini-2.5-flash'', abortKey = ''first'',
          enqueuedAt = 1700000000000 \<rparr>,
        \<lparr> reservationTokens = 1000, model = ''gemini-2.5-flash'', abortKey = ''B'',
          enqueuedAt = 1700000010001 \<rparr>]"
  by code_simp

text \<open>The order of the queue along a run.\<close>

lemma generate_queue_started:
  "(queue (generate now pm m r k s) = queue s
    \<and> started (generate now pm m r k s)
        = started s @ [\<lparr> reservationTokens = r, model = mapModel m, abortKey = k, enqueuedAt = now \<rparr>])
   \<or> (queue (generate now pm m r k s)
        = queue s @ [\<lparr> reservationTokens = r, model = mapModel m, abortKey = k, enqueuedAt = now \<rparr>]
      \<and> started (generate now pm m r k s) = started s)"
  by (auto simp: generate_def Let_def pushQuotaUpdate_def split: prod.splits dest!: canStartNow_state)

lemma runQueueCycle_queue_started:
  "(queue (runQueueCycle now pm s) = queue s \<and> started (runQueueCycle now pm s) = started s)
   \<or> (queue s \<noteq> [] \<and> queue (runQueueCycle now pm s) = tl (queue s)
      \<and> started (runQueueCycle now pm s) = started s @ [hd (queue s)])"
  by (auto simp: runQueueCycle_def Let_def pushQuotaUpdate_def
           split: prod.splits list.splits dest!: canStartNow_state)

lemma afterResponse_queue_started:
  "queue (fst (afterResponse now pm m r res s)) = queue s
   \<and> started (fst (afterResponse now pm m r res s)) = started s"
  by (simp add: afterResponse_def adjustReservation_def pushQuotaUpdate_def Let_def)

lemma queueOrderKept_step: "queueOrderKept s (step e s)"
proof (cases e)
  case (Submitted now pm m r k)
  let ?p = "\<lparr> reservationTokens = r, model = mapModel m, abortKey = k, enqueuedAt = now \<rparr>"
  from generate_queue_started[of now pm m r k s] show ?thesis
  proof
    assume a: "queue (generate now pm m r k s) = queue s
      \<and> started (generate now pm m r k s) = started s @ [?p]"
    show ?thesis unfolding queueOrderKept_def
      by (rule exI[of _ 0], rule exI[of _ "[]"], rule exI[of _ "[?p]"]) (simp add: Submitted a)
  next
    assume a: "queue (generate now pm m r k s) = queue s @ [?p]
      \<and> started (generate now pm m r k s) = started s"
    show ?thesis unfolding queueOrderKept_def
      by (rule exI[of _ 0], rule exI[of _ "[?p]"], rule exI[of _ "[]"]) (simp add: Submitted a)
  qed
next
  case (QueueCycle now pm)
  from runQueueCycle_queue_started[of now pm s] show ?thesis
  proof
    assume a: "queue (runQueueCycle now pm s) = queue s \<and> started (runQueueCycle now pm s) = started s"
    show ?thesis unfolding queueOrderKept_def
      by (rule exI[of _ 0], rule exI[of _ "[]"], rule exI[of _ "[]"]) (simp add: QueueCycle a)
  next
    assume a: "queue s \<noteq> [] \<and> queue (runQueueCycle now pm s) = tl (queue s)
      \<and> started (runQueueCycle now pm s) = started s @ [hd (queue s)]"
    then obtain x xs where q: "queue s = x # xs" by (cases "queue s") auto
    show ?thesis unfolding queueOrderKept_def
      by (rule exI[of _ 1], rule exI[of _ "[]"], rule exI[of _ "[x]"]) (use a q in \<open>simp add: QueueCycle\<close>)
  qed
next
  case (CallMade now m)
  show ?thesis unfolding queueOrderKept_def
    by (rule exI[of _ 0], rule exI[of _ "[]"], rule exI[of _ "[]"]) (simp add: CallMade setLastCallAt_def)
next
  case (Responded now pm m r res)
  show ?thesis unfolding queueOrderKept_def
    by (rule exI[of _ 0], rule exI[of _ "[]"], rule exI[of _ "[]"])
       (simp add: Responded afterResponse_queue_started)
qed

lemma queueOrderKept_trans:
  assumes "queueOrderKept s s1" and "queueOrderKept s1 s2"
  shows "queueOrderKept s s2"
proof -
  from assms(1) obtain n0 zs0 news0 where
    n0: "n0 \<le> length (queue s)" and q1: "queue s1 = drop n0 (queue s) @ zs0"
    and st1: "started s1 = started s @ news0" and sub0: "subseq (take n0 (queue s)) news0"
    unfolding queueOrderKept_def by blast
  from assms(2) obtain n1 zs1 news1 where
    n1: "n1 \<le> length (queue s1)" and q2: "queue s2 = drop n1 (queue s1) @ zs1"
    and st2: "started s2 = started s1 @ news1" and sub1: "subseq (take n1 (queue s1)) news1"
    unfolding queueOrderKept_def by blast
  let ?Q = "queue s"
  let ?n = "min (n0 + n1) (length ?Q)"
  have tk: "take ?n ?Q = take n0 ?Q @ take n1 (drop n0 ?Q)"
    using n0 by (simp add: take_add min_def)
  have "subseq (take n1 (drop n0 ?Q)) (take n1 (queue s1))"
    unfolding q1 by (simp add: prefix_imp_subseq)
  then have sub1': "subseq (take n1 (drop n0 ?Q)) news1" using sub1 by (rule subseq_order.trans)
  have sub: "subseq (take ?n ?Q) (news0 @ news1)"
    unfolding tk using sub0 sub1' by (rule list_emb_append_mono)
  have dq: "drop n1 (queue s1) = drop ?n ?Q @ drop (n1 - (length ?Q - n0)) zs0"
    unfolding q1 using n0 by (auto simp: min_def add.commute)
  show ?thesis unfolding queueOrderKept_def
    apply (rule exI[of _ ?n], rule exI[of _ "drop (n1 - (length ?Q - n0)) zs0 @ zs1"],
           rule exI[of _ "news0 @ news1"])
    using sub dq q2 st1 st2 by simp
qed

lemma queueOrderKept_refl: "queueOrderKept s s"
  unfolding queueOrderKept_def by (rule exI[of _ 0], rule exI[of _ "[]"], rule exI[of _ "[]"]) simp

lemma queueOrderKept_run: "queueOrderKept s (run es s)"
proof (induction es arbitrary: s)
  case Nil
  show ?case by (simp add: queueOrderKept_refl)
next
  case (Cons e es)
  have "queueOrderKept s (step e s)" by (rule queueOrderKept_step)
  moreover have "queueOrderKept (step e s) (run es (step e s))" by (rule Cons.IH)
  ultimately show ?case by (simp add: queueOrderKept_trans)
qed

text \<open>
  Claim C2, amended: requests that are in the queue are started in queue order. After
  any sequence of submissions, queue cycles, recorded calls and reconciled responses,
  some first requests of the queue have been started, in their order, and the others
  are still at the head of the queue, in their order, before the requests queued since.
  A queue cycle starts the request at the head of the queue when \<open>canStartNow\<close> accepts
  it, and no other request. A new request is started at once when \<open>canStartNow\<close>
  accepts it, whatever the queue holds, and is appended at the end of the queue
  otherwise.
\<close>

theorem C2_queue_order:
  "(\<exists>n zs news. n \<le> length (queue s) \<and> queue (run es s) = drop n (queue s) @ zs
      \<and> started (run es s) = started s @ news \<and> subseq (take n (queue s)) news)
   \<and> (case queue s of
      [] \<Rightarrow> queue (runQueueCycle now pm s) = [] \<and> started (runQueueCycle now pm s) = started s
    | next # rest \<Rightarrow>
        if fst (canStartNow now pm (model next) (reservationTokens next) (cleanWindows now pm s))
        then queue (runQueueCycle now pm s) = rest
             \<and> started (runQueueCycle now pm s) = started s @ [next]
        else queue (runQueueCycle now pm s) = next # rest
             \<and> started (runQueueCycle now pm s) = started s)
   \<and> (if fst (canStartNow now pm (mapModel m) r s)
      then queue (generate now pm m r k s) = queue s
           \<and> started (generate now pm m r k s)
               = started s @ [\<lparr> reservationTokens = r, model = mapModel m, abortKey = k,
                                 enqueuedAt = now \<rparr>]
      else queue (generate now pm m r k s)
             = queue s @ [\<lparr> reservationTokens = r, model = mapModel m, abortKey = k,
                             enqueuedAt = now \<rparr>]
           \<and> started (generate now pm m r k s) = started s)"
proof -
  have order: "\<exists>n zs news. n \<le> length (queue s) \<and> queue (run es s) = drop n (queue s) @ zs
      \<and> started (run es s) = started s @ news \<and> subseq (take n (queue s)) news"
    using queueOrderKept_run [of s es] by (simp add: queueOrderKept_def)
  have cycle: "(case queue s of
      [] \<Rightarrow> queue (runQueueCycle now pm s) = [] \<and> started (runQueueCycle now pm s) = started s
    | next # rest \<Rightarrow>
        if fst (canStartNow now pm (model next) (reservationTokens next) (cleanWindows now pm s))
        then queue (runQueueCycle now pm s) = rest
             \<and> started (runQueueCycle now pm s) = started s @ [next]
        else queue (runQueueCycle now pm s) = next # rest
             \<and> started (runQueueCycle now pm s) = started s)"
    by (auto simp: runQueueCycle_def Let_def pushQuotaUpdate_def
             split: prod.splits list.splits dest!: canStartNow_state)
  have submit: "(if fst (canStartNow now pm (mapModel m) r s)
      then queue (generate now pm m r k s) = queue s
           \<and> started (generate now pm m r k s)
               = started s @ [\<lparr> reservationTokens = r, model = mapModel m, abortKey = k,
                                 enqueuedAt = now \<rparr>]
      else queue (generate now pm m r k s)
             = queue s @ [\<lparr> reservationTokens = r, model = mapModel m, abortKey = k,
                             enqueuedAt = now \<rparr>]
           \<and> started (generate now pm m r k s) = started s)"
    by (auto simp: generate_def Let_def pushQuotaUpdate_def
             split: prod.splits dest!: canStartNow_state)
  from order cycle submit show ?thesis by blast
qed

text \<open>
  The theorem at the state of the counterexample: a request C submitted at
  \<open>T0 + 10002\<close> with 150000 tokens goes to the end of the queue, behind A, and the
  cycle at \<open>T0 + 70000\<close> starts A, the head of the queue.
\<close>

theorem C2_queue_order_witness:
  "map abortKey (queue (run [Submitted (T0 + 10002) PM0 FLASH 150000 ''C'',
                             QueueCycle (T0 + 70000) PM0] overtaken)) = [''C'']
   \<and> map abortKey (started (run [Submitted (T0 + 10002) PM0 FLASH 150000 ''C'',
                                  QueueCycle (T0 + 70000) PM0] overtaken))
       = [''first'', ''B'', ''A'']
   \<and> map abortKey (queue (runQueueCycle (T0 + 70000) PM0 overtaken)) = []
   \<and> map abortKey (started (runQueueCycle (T0 + 70000) PM0 overtaken)) = [''first'', ''B'', ''A'']
   \<and> map abortKey (queue (generate (T0 + 10002) PM0 FLASH 150000 ''C'' overtaken)) = [''A'', ''C'']
   \<and> map abortKey (started (generate (T0 + 10002) PM0 FLASH 150000 ''C'' overtaken))
       = [''first'', ''B'']"
proof -
  have q: "queue overtaken
     = [\<lparr> reservationTokens = 200000, model = ''gemini-2.5-flash'', abortKey = ''A'',
          enqueuedAt = 1700000010000 \<rparr>]"
    by code_simp
  have st: "map abortKey (started overtaken) = [''first'', ''B'']"
    by code_simp
  have c1: "fst (canStartNow (T0 + 70000) PM0 ''gemini-2.5-flash'' 200000
                  (cleanWindows (T0 + 70000) PM0 overtaken)) = True"
    by code_simp
  have c2: "fst (canStartNow (T0 + 10002) PM0 (mapModel FLASH) 150000 overtaken) = False"
    by code_simp
  have r: "map abortKey (queue (run [Submitted (T0 + 10002) PM0 FLASH 150000 ''C'',
                                     QueueCycle (T0 + 70000) PM0] overtaken)) = [''C'']
           \<and> map abortKey (started (run [Submitted (T0 + 10002) PM0 FLASH 150000 ''C'',
                                          QueueCycle (T0 + 70000) PM0] overtaken))
               = [''first'', ''B'', ''A'']"
    by code_simp
  show ?thesis
    using C2_queue_order [where s = overtaken and now = "T0 + 70000" and pm = PM0 and m = FLASH
                            and r = 150000 and k = "''C''" and es = "[]"]
          C2_queue_order [where s = overtaken and now = "T0 + 10002" and pm = PM0 and m = FLASH
                            and r = 150000 and k = "''C''" and es = "[]"]
          q st c1 c2 r
    by simp
qed

subsection \<open>The requests-per-minute limit\<close>

text \<open>
  \<open>recordRpm\<close> does not touch the cached lists, and \<open>cleanWindows\<close> leaves a cache
  that is not empty as it is when it removes nothing.
\<close>

lemma recordRpm_cache: "cachedRpmLists (recordRpm now pm m s) = cachedRpmLists s"
  by (simp add: recordRpm_def Let_def)

lemma cleanWindows_cache_kept:
  assumes "\<not> anyCleaned (\<lambda>e. time e < now - ROLLING_WINDOW_MS) (tokenWindows s)"
      and "\<not> anyCleaned (\<lambda>t. t < now - ROLLING_WINDOW_MS) (recentCalls s)"
      and "\<not> anyCleaned (\<lambda>t. t < pm) (dailyCalls s)"
      and "cachedRpmLists s \<noteq> []"
  shows "cachedRpmLists (cleanWindows now pm s) = cachedRpmLists s"
  using assms by (simp add: cleanWindows_def Let_def)

text \<open>The two bursts, evaluated.\<close>

lemma burst15_value: "burst15 = burstState burstKeys"
  by code_simp

lemma burst16_value: "burst16 = burstState (burstKeys @ [''r16''])"
  unfolding burst16_def burst15_value by code_simp

text \<open>
  Claim C3: after 15 admissions for flash-lite within one 60-second window, a 16th
  submission for flash-lite is queued, and stays queued until the oldest of the 15
  timestamps is more than 60 seconds old.

  The code reads the count from \<open>cachedRpmLists\<close>, which \<open>cleanWindows\<close> fills once and
  rebuilds only when it removes expired entries. After fifteen flash-lite requests
  submitted in the same millisecond to a fresh service, fifteen calls are recorded and
  the cache holds one; the sixteenth request is started, not queued.
\<close>

theorem C3_sixteenth_request_started:
  "map abortKey (started burst15) = burstKeys
   \<and> getList (recentCalls burst15) FLASH_LITE = replicate 15 1700000000000
   \<and> getList (cachedRpmLists burst15) FLASH_LITE = [1700000000000]
   \<and> fst (canStartNow T0 PM0 FLASH_LITE 1000 burst15) = True
   \<and> map abortKey (started burst16) = burstKeys @ [''r16'']
   \<and> queue burst16 = []"
  unfolding burst16_value burst15_value by code_simp

subsection \<open>Reservation and adjustment\<close>

text \<open>
  Claim C4: a reservation of \<open>r\<close> followed by an adjustment with actual \<open>a\<close> and
  reserved \<open>r\<close> leaves the window with the reservation entry as it was and, when
  \<open>a \<noteq> r\<close>, one new entry of \<open>a - r\<close>, so that the request counts for \<open>a\<close>.

  Counterexample: the reservation of 1000 tokens is made at \<open>T0\<close> and the adjustment
  to 400 tokens at \<open>T0 + 70000\<close>. The \<open>cleanWindows\<close> call of the adjustment removes the
  reservation entry, which is older than 60 seconds; the window holds the entry of
  -600 tokens alone.
\<close>

theorem C4_counterexample:
  "getList (tokenWindows lateAdjust) FLASH
     = [\<lparr> time = 1700000070000, tokens = - 600, reservation = False \<rparr>]
   \<and> currentUsedTokens lateAdjust = - 600"
  by code_simp

text \<open>
  Claim C4, amended: when the adjustment is made no more than 60 seconds after the
  reservation, the window of the model ends with the reservation entry as it was
  written, followed by one entry of \<open>a - r\<close> when \<open>a \<noteq> r\<close> and by nothing when
  \<open>a = r\<close>; before them are entries that the window held already, in their order; the
  entries of the request sum to \<open>a\<close>. With other events between the reservation
  and the adjustment, all within 60 seconds of the reservation, both entries are in
  the window after the adjustment.
\<close>

theorem C4_reserve_then_adjust:
  assumes wf: "distinct (map fst (tokenWindows s))"
      and recent: "nowA - ROLLING_WINDOW_MS \<le> nowR"
  shows "(\<exists>old. subseq old (getList (tokenWindows s) m) \<and>
           getList (tokenWindows (adjustReservation nowA pmA m a r
                                   (recordReservation nowR pmR m r s))) m
             = old @ \<lparr> time = nowR, tokens = r, reservation = True \<rparr>
                   # (if a = r then []
                      else [\<lparr> time = nowA, tokens = a - r, reservation = False \<rparr>]))
         \<and> windowTokens (\<lparr> time = nowR, tokens = r, reservation = True \<rparr>
                   # (if a = r then []
                      else [\<lparr> time = nowA, tokens = a - r, reservation = False \<rparr>])) = a
         \<and> ((\<forall>ev\<in>set es. eventTime ev - ROLLING_WINDOW_MS \<le> nowR) \<longrightarrow>
               \<lparr> time = nowR, tokens = r, reservation = True \<rparr>
                 \<in> set (getList (tokenWindows (adjustReservation nowA pmA m a r
                                   (run es (recordReservation nowR pmR m r s)))) m)
               \<and> (a \<noteq> r \<longrightarrow>
                    \<lparr> time = nowA, tokens = a - r, reservation = False \<rparr>
                      \<in> set (getList (tokenWindows (adjustReservation nowA pmA m a r
                                        (run es (recordReservation nowR pmR m r s)))) m)))"
proof -
  let ?e1 = "\<lparr> time = nowR, tokens = r, reservation = True \<rparr>"
  let ?e2 = "\<lparr> time = nowA, tokens = a - r, reservation = False \<rparr>"
  let ?ex1 = "\<lambda>e. time e < nowR - ROLLING_WINDOW_MS"
  let ?ex2 = "\<lambda>e. time e < nowA - ROLLING_WINDOW_MS"
  let ?W = "getList (tokenWindows s) m"
  let ?s1 = "recordReservation nowR pmR m r s"
  let ?W1 = "(if needsClean ?ex1 (?W @ [?e1]) then filter (\<lambda>x. \<not> ?ex1 x) ?W else ?W)"
  have tw1: "tokenWindows ?s1 = cleanDict ?ex1 (pushTo m ?e1 (tokenWindows s))"
    by (simp add: recordReservation_def cleanWindows_tokenWindows)
  have ne1: "\<not> ?ex1 ?e1" by (simp add: ROLLING_WINDOW_MS_def)
  have w1: "getList (tokenWindows ?s1) m = ?W1 @ [?e1]"
    unfolding tw1
    using window_after_push[where d="tokenWindows s" and ex="?ex1" and e="?e1" and k=m] wf ne1
    by simp
  have sub1: "subseq ?W1 ?W" by (rule subseq_if_filter)
  have wf1: "distinct (map fst (tokenWindows ?s1))"
    unfolding tw1 by (intro distinct_cleanDict distinct_pushTo wf)
  have ne2: "\<not> ?ex2 ?e2" by (simp add: ROLLING_WINDOW_MS_def)
  have ne21: "\<not> ?ex2 ?e1" using recent by simp
  have sumeq: "windowTokens (?e1 # (if a = r then [] else [?e2])) = a"
    by (simp add: windowTokens_def)
  have direct: "\<exists>old. subseq old ?W \<and>
           getList (tokenWindows (adjustReservation nowA pmA m a r ?s1)) m
             = old @ ?e1 # (if a = r then [] else [?e2])"
  proof (cases "a = r")
    case True
    then have "adjustReservation nowA pmA m a r ?s1 = ?s1" by (simp add: adjustReservation_def)
    then show ?thesis using w1 sub1 True by auto
  next
    case False
    let ?W2 = "(if needsClean ?ex2 ((?W1 @ [?e1]) @ [?e2]) then filter (\<lambda>x. \<not> ?ex2 x) ?W1
                else ?W1)"
    have tw2: "tokenWindows (adjustReservation nowA pmA m a r ?s1)
                 = cleanDict ?ex2 (pushTo m ?e2 (tokenWindows ?s1))"
      using False by (simp add: adjustReservation_def cleanWindows_tokenWindows Let_def)
    have "getList (tokenWindows (adjustReservation nowA pmA m a r ?s1)) m
            = (if needsClean ?ex2 ((?W1 @ [?e1]) @ [?e2])
               then filter (\<lambda>x. \<not> ?ex2 x) (?W1 @ [?e1]) else ?W1 @ [?e1]) @ [?e2]"
      unfolding tw2
      using window_after_push[where d="tokenWindows ?s1" and ex="?ex2" and e="?e2" and k=m]
            wf1 ne2 w1
      by simp
    also have "\<dots> = ?W2 @ [?e1, ?e2]" using ne21 by simp
    finally have w2:
      "getList (tokenWindows (adjustReservation nowA pmA m a r ?s1)) m = ?W2 @ [?e1, ?e2]" .
    have "subseq ?W2 ?W1" by (rule subseq_if_filter)
    then have "subseq ?W2 ?W" using sub1 by (rule subseq_order.trans)
    then show ?thesis using w2 False by auto
  qed
  have between: "(\<forall>ev\<in>set es. eventTime ev - ROLLING_WINDOW_MS \<le> nowR) \<longrightarrow>
               ?e1 \<in> set (getList (tokenWindows (adjustReservation nowA pmA m a r (run es ?s1))) m)
               \<and> (a \<noteq> r \<longrightarrow>
                    ?e2 \<in> set (getList (tokenWindows (adjustReservation nowA pmA m a r
                                                        (run es ?s1))) m))"
  proof
    assume times: "\<forall>ev\<in>set es. eventTime ev - ROLLING_WINDOW_MS \<le> nowR"
    let ?s2 = "run es ?s1"
    have m1: "?e1 \<in> set (getList (tokenWindows ?s1) m)" using w1 by simp
    have times': "\<forall>ev\<in>set es. eventTime ev - ROLLING_WINDOW_MS \<le> time ?e1" using times by simp
    have k2: "distinct (map fst (tokenWindows ?s2)) \<and> ?e1 \<in> set (getList (tokenWindows ?s2) m)"
      by (rule entry_kept_run[OF wf1 m1 times'])
    have keep: "entriesKept nowA ?s2 (adjustReservation nowA pmA m a r ?s2)"
      by (rule entriesKept_adjustReservation)
    have r1: "?e1 \<in> set (getList (tokenWindows (adjustReservation nowA pmA m a r ?s2)) m)"
      using keep k2 recent unfolding entriesKept_def by simp
    have r2: "a \<noteq> r \<longrightarrow> ?e2 \<in> set (getList (tokenWindows (adjustReservation nowA pmA m a r ?s2)) m)"
    proof
      assume ne: "a \<noteq> r"
      have tw: "tokenWindows (adjustReservation nowA pmA m a r ?s2)
                  = cleanDict ?ex2 (pushTo m ?e2 (tokenWindows ?s2))"
        using ne by (simp add: adjustReservation_def cleanWindows_tokenWindows Let_def)
      show "?e2 \<in> set (getList (tokenWindows (adjustReservation nowA pmA m a r ?s2)) m)"
        unfolding tw
        using window_after_push[where d="tokenWindows ?s2" and ex="?ex2" and e="?e2" and k=m]
              k2 ne2
        by simp
    qed
    from r1 r2
    show "?e1 \<in> set (getList (tokenWindows (adjustReservation nowA pmA m a r ?s2)) m)
          \<and> (a \<noteq> r \<longrightarrow>
               ?e2 \<in> set (getList (tokenWindows (adjustReservation nowA pmA m a r ?s2)) m))"
      by (rule conjI)
  qed
  from direct sumeq between show ?thesis by (intro conjI)
qed

text \<open>
  The theorem on a fresh service: 1000 tokens reserved at \<open>T0\<close>, adjusted to 400 five
  seconds later, without and with a flash-lite request submitted between the two.
\<close>

theorem C4_reserve_then_adjust_witness:
  "distinct (map fst (tokenWindows initial))
   \<and> (T0 + 5000) - ROLLING_WINDOW_MS \<le> T0
   \<and> (\<exists>old. subseq old (getList (tokenWindows initial) FLASH) \<and>
         getList (tokenWindows (adjustReservation (T0 + 5000) PM0 FLASH 400 1000
                                 (recordReservation T0 PM0 FLASH 1000 initial))) FLASH
           = old @ [\<lparr> time = T0, tokens = 1000, reservation = True \<rparr>,
                    \<lparr> time = T0 + 5000, tokens = - 600, reservation = False \<rparr>])
   \<and> windowTokens [\<lparr> time = T0, tokens = 1000, reservation = True \<rparr>,
                     \<lparr> time = T0 + 5000, tokens = - 600, reservation = False \<rparr>] = 400
   \<and> \<lparr> time = T0, tokens = 1000, reservation = True \<rparr>
       \<in> set (getList (tokenWindows (adjustReservation (T0 + 5000) PM0 FLASH 400 1000
                 (run [Submitted (T0 + 1000) PM0 FLASH_LITE 2000 ''other'']
                    (recordReservation T0 PM0 FLASH 1000 initial)))) FLASH)
   \<and> \<lparr> time = T0 + 5000, tokens = - 600, reservation = False \<rparr>
       \<in> set (getList (tokenWindows (adjustReservation (T0 + 5000) PM0 FLASH 400 1000
                 (run [Submitted (T0 + 1000) PM0 FLASH_LITE 2000 ''other'']
                    (recordReservation T0 PM0 FLASH 1000 initial)))) FLASH)"
proof -
  have h1: "distinct (map fst (tokenWindows initial))" by (simp add: initial_def)
  have h2: "(T0 + 5000) - ROLLING_WINDOW_MS \<le> T0" by (simp add: ROLLING_WINDOW_MS_def)
  have h3: "\<forall>ev\<in>set [Submitted (T0 + 1000) PM0 FLASH_LITE 2000 ''other''].
              eventTime ev - ROLLING_WINDOW_MS \<le> T0"
    by (simp add: ROLLING_WINDOW_MS_def)
  show ?thesis
    using h1 h2 h3
          C4_reserve_then_adjust [where s = initial and nowR = T0 and nowA = "T0 + 5000"
                                    and m = FLASH and pmR = PM0 and pmA = PM0
                                    and a = 400 and r = 1000
                                    and es = "[Submitted (T0 + 1000) PM0 FLASH_LITE 2000 ''other'']"]
    by simp
qed

text \<open>
  Claim C10: when the usage metadata of a response has no positive \<open>promptTokens\<close>,
  the post-response step appends no adjustment entry and leaves \<open>usedReservation\<close>
  unset, so the reservation stays the charge of the request while it is in the window.

  \<open>afterResponse\<close> then only runs \<open>cleanWindows\<close> and returns the response as it
  was: each window is a subsequence of what it was, and an entry not older than 60
  seconds stays, also through every later event that comes before the entry is 60
  seconds old.
\<close>

theorem C10_no_usage_no_adjustment:
  assumes wf: "distinct (map fst (tokenWindows s))"
      and nousage: "\<not> (\<exists>mt n. meta res = Some mt \<and> promptTokens mt = Some n \<and> 0 < n)"
  shows "afterResponse now pm m r res s = (cleanWindows now pm s, res)
         \<and> subseq (getList (tokenWindows (fst (afterResponse now pm m r res s))) k)
                   (getList (tokenWindows s) k)
         \<and> (e \<in> set (getList (tokenWindows s) k) \<and> now - ROLLING_WINDOW_MS \<le> time e
              \<longrightarrow> e \<in> set (getList (tokenWindows (fst (afterResponse now pm m r res s))) k))
         \<and> (e \<in> set (getList (tokenWindows s) k) \<and> now - ROLLING_WINDOW_MS \<le> time e
              \<and> (\<forall>ev\<in>set es. eventTime ev - ROLLING_WINDOW_MS \<le> time e)
              \<longrightarrow> e \<in> set (getList (tokenWindows
                                      (run es (fst (afterResponse now pm m r res s)))) k))"
proof -
  have "actualPromptTokens res \<le> 0"
    using nousage by (auto simp: actualPromptTokens_def split: option.splits)
  then have eq: "afterResponse now pm m r res s = (cleanWindows now pm s, res)"
    by (simp add: afterResponse_def pushQuotaUpdate_def Let_def)
  have w: "getList (tokenWindows (cleanWindows now pm s)) k =
             (if needsClean (\<lambda>e. time e < now - ROLLING_WINDOW_MS) (getList (tokenWindows s) k)
              then filter (\<lambda>e. \<not> time e < now - ROLLING_WINDOW_MS) (getList (tokenWindows s) k)
              else getList (tokenWindows s) k)"
    by (simp add: cleanWindows_tokenWindows getList_cleanDict wf)
  have sub: "subseq (getList (tokenWindows (cleanWindows now pm s)) k) (getList (tokenWindows s) k)"
    unfolding w by (rule subseq_if_filter)
  have keep: "e \<in> set (getList (tokenWindows s) k) \<and> now - ROLLING_WINDOW_MS \<le> time e
              \<longrightarrow> e \<in> set (getList (tokenWindows (cleanWindows now pm s)) k)"
    unfolding w by auto
  have later: "e \<in> set (getList (tokenWindows s) k) \<and> now - ROLLING_WINDOW_MS \<le> time e
              \<and> (\<forall>ev\<in>set es. eventTime ev - ROLLING_WINDOW_MS \<le> time e)
              \<longrightarrow> e \<in> set (getList (tokenWindows (run es (cleanWindows now pm s))) k)"
    using entry_kept_run [OF distinct_cleanWindows [OF wf], of e now pm k es] keep by blast
  show ?thesis using eq sub keep later by simp
qed

text \<open>
  The theorem for a reservation of 1000 tokens at \<open>T0\<close> and a response without usage
  metadata two seconds later, followed by a queue cycle and a submission within the
  minute.
\<close>

theorem C10_no_usage_no_adjustment_witness:
  "distinct (map fst (tokenWindows reserved))
   \<and> \<not> (\<exists>mt n. meta noUsage = Some mt \<and> promptTokens mt = Some n \<and> 0 < n)
   \<and> meta noUsage = Some \<lparr> promptTokens = None, usedReservation = None \<rparr>
   \<and> afterResponse (T0 + 2000) PM0 FLASH 1000 noUsage reserved
       = (cleanWindows (T0 + 2000) PM0 reserved, noUsage)
   \<and> \<lparr> time = 1700000000000, tokens = 1000, reservation = True \<rparr>
       \<in> set (getList (tokenWindows (fst (afterResponse (T0 + 2000) PM0 FLASH 1000 noUsage reserved)))
                 FLASH)
   \<and> \<lparr> time = 1700000000000, tokens = 1000, reservation = True \<rparr>
       \<in> set (getList (tokenWindows
                 (run [QueueCycle (T0 + 30000) PM0, Submitted (T0 + 59000) PM0 FLASH 500 ''next'']
                    (fst (afterResponse (T0 + 2000) PM0 FLASH 1000 noUsage reserved)))) FLASH)"
proof -
  have h1: "distinct (map fst (tokenWindows reserved))" by code_simp
  have h2: "\<not> (\<exists>mt n. meta noUsage = Some mt \<and> promptTokens mt = Some n \<and> 0 < n)"
    by (auto simp: noUsage_def)
  have h3: "meta noUsage = Some \<lparr> promptTokens = None, usedReservation = None \<rparr>"
    by (simp add: noUsage_def)
  have h4: "\<lparr> time = 1700000000000, tokens = 1000, reservation = True \<rparr>
              \<in> set (getList (tokenWindows reserved) FLASH)"
    by code_simp
  have h5: "(T0 + 2000) - ROLLING_WINDOW_MS
              \<le> time \<lparr> time = 1700000000000, tokens = 1000, reservation = True \<rparr>"
    by (simp add: T0_def ROLLING_WINDOW_MS_def)
  note th = C10_no_usage_no_adjustment
            [where s = reserved and res = noUsage and now = "T0 + 2000" and pm = PM0
               and m = FLASH and r = 1000 and k = FLASH
               and e = "\<lparr> time = 1700000000000, tokens = 1000, reservation = True \<rparr>"
               and es = "[QueueCycle (T0 + 30000) PM0, Submitted (T0 + 59000) PM0 FLASH 500 ''next'']",
             OF h1 h2]
  have e: "afterResponse (T0 + 2000) PM0 FLASH 1000 noUsage reserved
             = (cleanWindows (T0 + 2000) PM0 reserved, noUsage)"
    using th by blast
  have i: "\<lparr> time = 1700000000000, tokens = 1000, reservation = True \<rparr>
       \<in> set (getList (tokenWindows (fst (afterResponse (T0 + 2000) PM0 FLASH 1000 noUsage reserved)))
                 FLASH)"
    using th h4 h5 by blast
  have l: "\<forall>ev\<in>set [QueueCycle (T0 + 30000) PM0, Submitted (T0 + 59000) PM0 FLASH 500 ''next''].
             eventTime ev - ROLLING_WINDOW_MS
               \<le> time \<lparr> time = 1700000000000, tokens = 1000, reservation = True \<rparr>"
    by (simp add: T0_def ROLLING_WINDOW_MS_def)
  have j: "\<lparr> time = 1700000000000, tokens = 1000, reservation = True \<rparr>
       \<in> set (getList (tokenWindows
                 (run [QueueCycle (T0 + 30000) PM0, Submitted (T0 + 59000) PM0 FLASH 500 ''next'']
                    (fst (afterResponse (T0 + 2000) PM0 FLASH 1000 noUsage reserved)))) FLASH)"
    using th h4 h5 l by blast
  show ?thesis using h1 h2 h3 e i j by blast
qed

subsection \<open>The summarization trigger\<close>

text \<open>
  Claim C5: \<open>addMessage\<close> triggers summarization whenever there are more than
  \<open>maxRecentMessages\<close> messages or their tokens exceed the token threshold; exceeding
  the token threshold is enough however few messages there are.

  Counterexample: with a threshold of 100 tokens and the default minimum of 30
  messages, the 25th message brings the buffer to 125 tokens, and nothing is
  summarized, although \<open>summarizeOldMessages\<close> on that memory would summarize one
  message.
\<close>

theorem C5_counterexample:
  "length (recentMessages twentyFive) = 25
   \<and> recentTokens twentyFive = 125
   \<and> maxTokens (summarizationTrigger (config twentyFive)) = 100
   \<and> summaries (memoryBank twentyFive) = []
   \<and> summarizationsPerformed (stats twentyFive) = 0
   \<and> length (recentMessages (summarizeOldMessages summarizerOk twentyFive)) = 24
   \<and> length (summaries (memoryBank (summarizeOldMessages summarizerOk twentyFive))) = 1"
  by code_simp

text \<open>
  Claim C5, amended: \<open>addMessage\<close> appends the message and triggers summarization
  exactly when the buffer then holds at least \<open>summarizationTrigger.minMessages\<close>
  messages and either holds more than \<open>maxRecentMessages\<close> messages or its tokens
  exceed \<open>summarizationTrigger.maxTokens\<close>.
\<close>

theorem C5_trigger:
  "addMessage now rnd ai r t memory =
     (let memory' = memory\<lparr> recentMessages := recentMessages memory
                        @ [\<lparr> entryId = MsgId now rnd,
                              estimatedTokens = Some (estimate t (Some (if r = User then Mixed else Natural))),
                              role = r, msgText = t, timestamp = now \<rparr>],
                      stats := (stats memory)\<lparr> totalInteractions := totalInteractions (stats memory) + 1 \<rparr> \<rparr>
      in if minMessages (summarizationTrigger (config memory)) \<le> int (length (recentMessages memory'))
            \<and> (maxRecentMessages (config memory) < int (length (recentMessages memory'))
                 \<or> maxTokens (summarizationTrigger (config memory)) < recentTokens memory')
         then summarizeOldMessages ai memory'
         else memory')"
  by (simp add: addMessage_def checkAndSummarize_def Let_def)

text \<open>
  The theorem at the 30th message of such a conversation: 150 tokens and 30 messages
  trigger the summarization, which keeps 24 messages.
\<close>

theorem C5_trigger_witness:
  "length (recentMessages
             (addMessage (T0 + 29) ''x'' summarizerOk User ''aaaaaaaaaaaaaaaaaaaa'' twentyNine)) = 24
   \<and> length (summaries (memoryBank
             (addMessage (T0 + 29) ''x'' summarizerOk User ''aaaaaaaaaaaaaaaaaaaa'' twentyNine))) = 1"
proof -
  let ?m = "twentyNine\<lparr> recentMessages := recentMessages twentyNine
                @ [\<lparr> entryId = MsgId (T0 + 29) ''x'',
                      estimatedTokens =
                        Some (estimate ''aaaaaaaaaaaaaaaaaaaa'' (Some (if User = User then Mixed else Natural))),
                      role = User, msgText = ''aaaaaaaaaaaaaaaaaaaa'', timestamp = T0 + 29 \<rparr>],
              stats := (stats twentyNine)\<lparr> totalInteractions := totalInteractions (stats twentyNine) + 1 \<rparr> \<rparr>"
  have a: "minMessages (summarizationTrigger (config twentyNine)) \<le> int (length (recentMessages ?m))"
    by code_simp
  have b: "maxTokens (summarizationTrigger (config twentyNine)) < recentTokens ?m"
    by code_simp
  have c: "length (recentMessages (summarizeOldMessages summarizerOk ?m)) = 24"
    by code_simp
  have d: "length (summaries (memoryBank (summarizeOldMessages summarizerOk ?m))) = 1"
    by code_simp
  have "addMessage (T0 + 29) ''x'' summarizerOk User ''aaaaaaaaaaaaaaaaaaaa'' twentyNine
          = summarizeOldMessages summarizerOk ?m"
    using C5_trigger [where now = "T0 + 29" and rnd = "''x''" and ai = summarizerOk and r = User
                        and t = "''aaaaaaaaaaaaaaaaaaaa''" and memory = twentyNine]
          a b
    by (simp add: Let_def)
  then show ?thesis using c d by simp
qed

subsection \<open>The floor of the estimators\<close>

lemma ceilDiv_pos: "0 < a \<Longrightarrow> 0 < b \<Longrightarrow> 1 \<le> ceilDiv a b"
  unfolding ceilDiv_def using div_neg_pos_less0[of "- a" b] by simp

text \<open>
  Claim C6: the token estimator returns at least the floor of about 4 for a non-empty
  string and a small non-zero floor for the empty string, never zero.

  Counterexample: \<open>TokenCounter.estimate\<close> returns 0 for the empty string, with or
  without a content type, and 1 for the string \<open>a\<close>.
\<close>

theorem C6_counterexample:
  "estimate [] (Some Mixed) = 0 \<and> estimate [] None = 0 \<and> estimate ''a'' (Some Mixed) = 1"
  by code_simp

text \<open>
  Claim C6, amended: \<open>estimateTokens\<close> returns at least 4 for every string, and 4 for
  the empty string; \<open>TokenCounter.estimate\<close> returns 0 for the empty string and at
  least 1 for a non-empty string, whatever the content type.
\<close>

theorem C6_floors:
  "4 \<le> estimateTokens t
   \<and> estimateTokens [] = 4
   \<and> estimate [] ct = 0
   \<and> (t \<noteq> [] \<longrightarrow> 1 \<le> estimate t ct)"
proof -
  have a: "4 \<le> estimateTokens t" by (simp add: estimateTokens_def Let_def)
  have b: "estimateTokens [] = 4" by (simp add: estimateTokens_def trim_def)
  have c: "estimate [] ct = 0" by (simp add: estimate_def)
  have d: "t \<noteq> [] \<Longrightarrow> 1 \<le> estimate t ct"
  proof -
    assume ne: "t \<noteq> []"
    then have len: "0 < int (length t)" by simp
    have w: "0 < 13 * int (splitWsCount t)" by (simp add: splitWsCount_def)
    show ?thesis
      using ne len w
      by (auto simp: estimate_def Let_def intro!: ceilDiv_pos split: contentType.splits option.splits)
  qed
  from a b c d show ?thesis by blast
qed

theorem C6_floors_witness:
  "4 \<le> estimateTokens ''hello world'' \<and> ''hello world'' \<noteq> []
   \<and> 1 \<le> estimate ''hello world'' (Some Natural)"
  using C6_floors [where t = "''hello world''" and ct = "Some Natural"] by simp

subsection \<open>Compression of the memory bank\<close>

text \<open>
  Claim C7: compression with at least 3 summaries and a successful call with
  non-empty text leaves exactly 2 summaries, the meta-summary of all the older ones and
  the newest summary as it was; with fewer than 3 summaries it changes nothing.

  Counterexample: the call succeeds with a text of one blank, which is not empty, and
  the bank keeps its 3 summaries: the code tests \<open>response.text.trim() !== ''\<close>.
\<close>

theorem C7_counterexample:
  "compressionResponse summarizerBlank = Some '' ''
   \<and> length (summaries (memoryBank
               (bankOf [summaryOf 1 ''one'', summaryOf 2 ''two'', summaryOf 3 ''three'']))) = 3
   \<and> summaries (memoryBank (compressMemoryBank summarizerBlank
                               (bankOf [summaryOf 1 ''one'', summaryOf 2 ''two'', summaryOf 3 ''three''])))
       = [summaryOf 1 ''one'', summaryOf 2 ''two'', summaryOf 3 ''three'']"
  by code_simp

text \<open>
  Claim C7, amended: compression with at least 3 summaries and a successful call whose
  text has a character that is not whitespace leaves exactly 2 summaries, the
  meta-summary of all the older ones, which holds the trimmed text, and the newest
  summary as it was; with fewer than 3 summaries it changes nothing.
\<close>

theorem C7_compression:
  "(length (summaries (memoryBank memory)) < 3 \<longrightarrow> compressMemoryBank ai memory = memory)
   \<and> (3 \<le> length (summaries (memoryBank memory)) \<and> compressionResponse ai = Some t \<and> trim t \<noteq> []
        \<longrightarrow> summaries (memoryBank (compressMemoryBank ai memory))
              = [\<lparr> entryId = CompressedId (compressionTime ai),
                   estimatedTokens = Some (estimate (trim t) (Some Natural)),
                   summary = trim t,
                   originalMessageIds =
                     concat (map originalMessageIds (butlast (summaries (memoryBank memory)))),
                   createdAt = compressionTime ai,
                   category = General \<rparr>,
                 last (summaries (memoryBank memory))]
            \<and> length (summaries (memoryBank (compressMemoryBank ai memory))) = 2)"
proof -
  have tr: "trim t \<noteq> [] \<Longrightarrow> t \<noteq> []" by (auto simp: trim_def)
  show ?thesis
    using tr by (auto simp: compressMemoryBank_def Let_def)
qed

text \<open>The theorem on a bank of two summaries and on a bank of three.\<close>

theorem C7_compression_witness:
  "length (summaries (memoryBank (bankOf [summaryOf 1 ''one'', summaryOf 2 ''two'']))) < 3
   \<and> compressMemoryBank summarizerOk (bankOf [summaryOf 1 ''one'', summaryOf 2 ''two''])
       = bankOf [summaryOf 1 ''one'', summaryOf 2 ''two'']
   \<and> 3 \<le> length (summaries (memoryBank (bankOf [summaryOf 1 ''one'', summaryOf 2 ''two'', summaryOf 3 ''three''])))
   \<and> compressionResponse summarizerOk = Some '' Project: LED blinker ''
   \<and> trim '' Project: LED blinker '' \<noteq> []
   \<and> summaries (memoryBank (compressMemoryBank summarizerOk
                                (bankOf [summaryOf 1 ''one'', summaryOf 2 ''two'', summaryOf 3 ''three''])))
       = [\<lparr> entryId = CompressedId (T0 + 200000), estimatedTokens = Some 4,
            summary = ''Project: LED blinker'',
            originalMessageIds = [MsgId 1 ''x'', MsgId 2 ''x''],
            createdAt = T0 + 200000, category = General \<rparr>,
          summaryOf 3 ''three'']"
proof -
  have h1: "length (summaries (memoryBank (bankOf [summaryOf 1 ''one'', summaryOf 2 ''two'']))) < 3"
    by (simp add: bankOf_def)
  have h2: "3 \<le> length (summaries (memoryBank (bankOf [summaryOf 1 ''one'', summaryOf 2 ''two'', summaryOf 3 ''three''])))"
    by (simp add: bankOf_def)
  have h3: "compressionResponse summarizerOk = Some '' Project: LED blinker ''"
    by (simp add: summarizerOk_def)
  have h4: "trim '' Project: LED blinker '' = ''Project: LED blinker''"
    by code_simp
  have h5: "estimate ''Project: LED blinker'' (Some Natural) = 4"
    by code_simp
  have h6: "compressionTime summarizerOk = T0 + 200000" by (simp add: summarizerOk_def)
  have h7: "summaries (memoryBank (bankOf [summaryOf 1 ''one'', summaryOf 2 ''two'', summaryOf 3 ''three'']))
             = [summaryOf 1 ''one'', summaryOf 2 ''two'', summaryOf 3 ''three'']"
    by (simp add: bankOf_def)
  have h8: "originalMessageIds (summaryOf 1 ''one'') = [MsgId 1 ''x'']"
           "originalMessageIds (summaryOf 2 ''two'') = [MsgId 2 ''x'']"
    by (simp_all add: summaryOf_def)
  show ?thesis
    using C7_compression [where memory = "bankOf [summaryOf 1 ''one'', summaryOf 2 ''two'']"
                            and ai = summarizerOk and t = "'' Project: LED blinker ''"]
          C7_compression [where memory = "bankOf [summaryOf 1 ''one'', summaryOf 2 ''two'', summaryOf 3 ''three'']"
                            and ai = summarizerOk and t = "'' Project: LED blinker ''"]
          h1 h2 h3 h4 h5 h6 h7 h8
    by simp
qed

subsection \<open>The events of one request\<close>

text \<open>
  \<open>cancel\<close> sends its error event for a request that is running, once: it removes the
  controller, and sends nothing for a key without controller.
\<close>

lemma cancel_running:
  "k \<in> set (abortControllers s) \<Longrightarrow>
   snd (cancel now pm k s) = [ErrorEvent k ''Canceled'']
   \<and> k \<notin> set (abortControllers (fst (cancel now pm k s)))"
  by (simp add: cancel_def Let_def pushQuotaUpdate_def cleanWindows_def split: list.splits)

lemma cancel_not_running:
  "k \<notin> set (abortControllers s) \<Longrightarrow> snd (cancel now pm k s) = []"
  by (simp add: cancel_def Let_def)

text \<open>
  Every event that the chunks of a stream, the pacing and one call of
  \<open>streamingCall\<close> send is a delta for the key of the request, but for the \<open>done\<close>
  event that ends a call that returns and the error event of a \<open>cancel\<close> that
  interrupts the stream.
\<close>

lemma streamChunks_events:
  "\<exists>ds. fst (streamChunks key full hasFc cs) = map (Delta key) ds"
proof (induction cs arbitrary: full hasFc)
  case Nil
  show ?case by simp
next
  case (Cons c cs)
  let ?h = "hasFc \<or> list_ex partFunctionCall (chunkParts c)"
  let ?texts = "(if \<not> ?h then (if chunkText c \<noteq> [] then [chunkText c] else [])
                 else filter (\<lambda>t. t \<noteq> []) (map partText (chunkParts c)))"
  obtain ds where ds: "fst (streamChunks key (full @ concat ?texts) ?h cs) = map (Delta key) ds"
    using Cons.IH by blast
  have "fst (streamChunks key full hasFc (c # cs))
          = map (\<lambda>t. Delta key (ChunkDelta t)) ?texts @ fst (streamChunks key (full @ concat ?texts) ?h cs)"
    by (simp add: Let_def split: prod.splits)
  also have "\<dots> = map (Delta key) (map ChunkDelta ?texts @ ds)"
    unfolding ds by simp
  finally show ?case by blast
qed

lemma pacing_events: "\<exists>ds. pacing m key lc now = map (Delta key) ds"
proof (cases "now - lc < (if isFlashLite m then MIN_SPACING_MS_FLASH_LITE else MIN_SPACING_MS_FLASH)")
  case True
  then have "pacing m key lc now
               = map (Delta key) [PacingNotice ((if isFlashLite m then MIN_SPACING_MS_FLASH_LITE
                                                 else MIN_SPACING_MS_FLASH) - (now - lc))]"
    by (simp add: pacing_def Let_def)
  then show ?thesis by blast
next
  case False
  then have "pacing m key lc now = map (Delta key) []" by (simp add: pacing_def Let_def)
  then show ?thesis by blast
qed

lemma streamingCallImpl_events:
  assumes "interrupted a \<noteq> CancelBeforePacing"
  shows "\<exists>ds. fst (streamingCallImpl key a)
                = map (Delta key) ds
                  @ (case snd (streamingCallImpl key a) of
                       Inr t \<Rightarrow> [Done key]
                     | Inl e \<Rightarrow> (case interrupted a of
                                  CancelInStream k \<Rightarrow> [ErrorEvent key ''Canceled'']
                                | _ \<Rightarrow> []))"
proof -
  obtain ds where ds: "fst (streamChunks key [] False
                              (take (case interrupted a of
                                       CancelInStream k \<Rightarrow> k
                                     | TimeoutInStream k \<Rightarrow> k
                                     | _ \<Rightarrow> length (chunks a)) (chunks a)))
                       = map (Delta key) ds"
    using streamChunks_events by blast
  show ?thesis
    using assms ds
    by (cases "interrupted a")
       (auto simp: streamingCallImpl_def Let_def split: option.splits)
qed

text \<open>
  Each retry uses up one of the two fallbacks or one of the \<open>maxRetries\<close> attempts, so
  the loop ends: that many passes and one more give a result.
\<close>

lemma onError_retry:
  "onError aborted tnt tns att err = RetryWithoutThinking \<Longrightarrow> \<not> tnt"
  "onError aborted tnt tns att err = RetryWithoutSearch \<Longrightarrow> \<not> tns"
  "onError aborted tnt tns att err = RetryAfter svc backoff \<Longrightarrow> att < maxRetries"
  by (auto simp: onError_def split: if_splits)

lemma executeStandardGeneration_returns:
  "maxRetries - att + (if tnt then 0 else 1) + (if tns then 0 else 1) < length as \<Longrightarrow>
   \<exists>out. executeStandardGeneration key m att tnt tns lc as = Some out"
proof (induction as arbitrary: att tnt tns lc)
  case Nil
  then show ?case by simp
next
  case (Cons a as)
  show ?case
  proof (cases "snd (streamingCallImpl key a)")
    case (Inr t)
    then show ?thesis by (simp add: Let_def)
  next
    case (Inl err)
    show ?thesis
    proof (cases "onError (interrupted a \<noteq> NoInterruption) tnt tns att err")
      case ThrowCanceled
      then show ?thesis using Inl by (simp add: Let_def)
    next
      case RetryWithoutThinking
      then have "\<not> tnt" by (rule onError_retry)
      then have "maxRetries - att + (if True then 0 else 1) + (if tns then 0 else 1) < length as"
        using Cons.prems by simp
      then obtain out where "executeStandardGeneration key m att True tns (callNow a) as = Some out"
        using Cons.IH by blast
      then show ?thesis using Inl RetryWithoutThinking by (simp add: Let_def)
    next
      case RetryWithoutSearch
      then have "\<not> tns" by (rule onError_retry)
      then have "maxRetries - att + (if tnt then 0 else 1) + (if True then 0 else 1) < length as"
        using Cons.prems by simp
      then obtain out where "executeStandardGeneration key m att tnt True (callNow a) as = Some out"
        using Cons.IH by blast
      then show ?thesis using Inl RetryWithoutSearch by (simp add: Let_def)
    next
      case ThrowAuth
      then show ?thesis using Inl by (simp add: Let_def)
    next
      case ThrowQuota
      then show ?thesis using Inl by (simp add: Let_def)
    next
      case (RetryAfter svc backoff)
      then have "att < maxRetries" by (rule onError_retry)
      then have "maxRetries - Suc att + (if tnt then 0 else 1) + (if tns then 0 else 1) < length as"
        using Cons.prems by simp
      then obtain out where "executeStandardGeneration key m (Suc att) tnt tns (callNow a) as = Some out"
        using Cons.IH by blast
      then show ?thesis using Inl RetryAfter by (simp add: Let_def)
    next
      case (ThrowFailed msg)
      then show ?thesis using Inl by (simp add: Let_def)
    qed
  qed
qed

text \<open>
  For a request with no \<open>cancel\<close> before the pacing of a pass, the events of the loop
  are deltas, followed by \<open>done\<close> when the promise resolves, by the error event of
  \<open>cancel\<close> when the stream was cancelled, and by nothing when the request fails or
  times out.
\<close>

lemma executeStandardGeneration_events:
  assumes "list_all (\<lambda>a. interrupted a \<noteq> CancelBeforePacing) passes"
      and "executeStandardGeneration key m att tnt tns lc passes = Some (evs, res)"
  shows "\<exists>ds. evs = map (Delta key) ds
                     @ (case res of Resolved t \<Rightarrow> [Done key] | Rejected msg \<Rightarrow> [])
              \<or> (res = Rejected ''Generation canceled.''
                  \<and> evs = map (Delta key) ds @ [ErrorEvent key ''Canceled''])"
  using assms
proof (induction passes arbitrary: att tnt tns lc evs res)
  case Nil
  then show ?case by simp
next
  case (Cons a as)
  let ?T = "\<lambda>r. (case r of Resolved t \<Rightarrow> [Done key] | Rejected msg \<Rightarrow> [])"
  let ?C = "[ErrorEvent key ''Canceled'']"
  have nb: "interrupted a \<noteq> CancelBeforePacing" using Cons.prems(1) by simp
  have rest: "list_all (\<lambda>a. interrupted a \<noteq> CancelBeforePacing) as" using Cons.prems(1) by simp
  obtain dp where dp: "pacing m key lc (pacingNow a) = map (Delta key) dp"
    using pacing_events by blast
  obtain dsc where dsc: "fst (streamingCallImpl key a)
      = map (Delta key) dsc
        @ (case snd (streamingCallImpl key a) of
             Inr t \<Rightarrow> [Done key]
           | Inl e \<Rightarrow> (case interrupted a of CancelInStream k \<Rightarrow> ?C | _ \<Rightarrow> []))"
    using streamingCallImpl_events[OF nb] by blast
  have tail: "\<exists>ds. map (Delta key) pre @ es = map (Delta key) ds @ ?T r
                  \<or> (r = Rejected ''Generation canceled.''
                      \<and> map (Delta key) pre @ es = map (Delta key) ds @ ?C)"
    if h: "executeStandardGeneration key m att' tnt' tns' (callNow a) as = Some (es, r)"
    for att' tnt' tns' es r pre
  proof -
    obtain ds where "es = map (Delta key) ds @ ?T r
                     \<or> (r = Rejected ''Generation canceled.'' \<and> es = map (Delta key) ds @ ?C)"
      using Cons.IH[OF rest h] by blast
    then have "map (Delta key) pre @ es = map (Delta key) (pre @ ds) @ ?T r
               \<or> (r = Rejected ''Generation canceled.''
                   \<and> map (Delta key) pre @ es = map (Delta key) (pre @ ds) @ ?C)"
      by auto
    then show ?thesis by blast
  qed
  show ?case
  proof (cases "interrupted a = NoInterruption")
    case False
    then have out: "snd (streamingCallImpl key a) = Inl canceledError"
      by (simp add: streamingCallImpl_def Let_def)
    have act: "onError True tnt tns att canceledError = ThrowCanceled"
      by (simp add: onError_def)
    have r: "res = Rejected ''Generation canceled.''"
        and e: "evs = pacing m key lc (pacingNow a) @ fst (streamingCallImpl key a)"
      using Cons.prems(2) False nb out act by (simp_all add: Let_def)
    have "evs = map (Delta key) (dp @ dsc) @ ?T res
          \<or> (res = Rejected ''Generation canceled.''
              \<and> evs = map (Delta key) (dp @ dsc) @ ?C)"
      unfolding e r using dp dsc out by (cases "interrupted a") simp_all
    then show ?thesis by blast
  next
    case ni: True
    show ?thesis
    proof (cases "snd (streamingCallImpl key a)")
      case (Inr t)
      then have "evs = map (Delta key) (dp @ dsc) @ ?T res"
        using Cons.prems(2) ni dp dsc by (auto simp: Let_def)
      then show ?thesis by blast
    next
      case (Inl err)
      then have e0: "pacing m key lc (pacingNow a) @ fst (streamingCallImpl key a)
                       = map (Delta key) (dp @ dsc)"
        using dp dsc ni by simp
      show ?thesis
      proof (cases "onError False tnt tns att err")
        case ThrowCanceled
        then have "evs = map (Delta key) (dp @ dsc) @ ?T res"
          using Cons.prems(2) ni Inl e0 by (auto simp: Let_def)
        then show ?thesis by blast
      next
        case RetryWithoutThinking
        then obtain es where r: "executeStandardGeneration key m att True tns (callNow a) as = Some (es, res)"
            and e: "evs = map (Delta key) (dp @ dsc) @ es"
          using Cons.prems(2) ni Inl e0 by (auto simp: Let_def)
        show ?thesis unfolding e by (rule tail[OF r])
      next
        case RetryWithoutSearch
        then obtain es where r: "executeStandardGeneration key m att tnt True (callNow a) as = Some (es, res)"
            and e: "evs = map (Delta key) (dp @ dsc) @ es"
          using Cons.prems(2) ni Inl e0 by (auto simp: Let_def)
        show ?thesis unfolding e by (rule tail[OF r])
      next
        case ThrowAuth
        then have "evs = map (Delta key) (dp @ dsc) @ ?T res"
          using Cons.prems(2) ni Inl e0 by (auto simp: Let_def)
        then show ?thesis by blast
      next
        case ThrowQuota
        then have "evs = map (Delta key) (dp @ dsc) @ ?T res"
          using Cons.prems(2) ni Inl e0 by (auto simp: Let_def)
        then show ?thesis by blast
      next
        case (RetryAfter svc backoff)
        then obtain es where r: "executeStandardGeneration key m (Suc att) tnt tns (callNow a) as = Some (es, res)"
            and e: "evs = map (Delta key) (dp @ dsc @ [RetryNotice svc backoff]) @ es"
          using Cons.prems(2) ni Inl e0 by (auto simp: Let_def)
        show ?thesis unfolding e by (rule tail[OF r])
      next
        case (ThrowFailed msg)
        then have "evs = map (Delta key) (dp @ dsc) @ ?T res"
          using Cons.prems(2) ni Inl e0 by (auto simp: Let_def)
        then show ?thesis by blast
      qed
    qed
  qed
qed

text \<open>
  Claim C8: the events sent for one request are zero or more deltas followed by
  exactly one terminal event (done or error), and no event follows the terminal one.

  On the code, a request whose call fails with an authentication error sends no event
  at all: the failure only rejects the promise, although the interface of the client
  documents the error of an event as the \<open>Error message (if generation fails)\<close>. A
  request that is cancelled during the backoff delay after a failed call sends the
  error event of \<open>cancel\<close>, and then the pacing notice of the next pass of the loop, a
  delta after the terminal event: \<open>pacing\<close> does not look at the abort signal.
\<close>

theorem C8_failure_and_cancel_events:
  "executeStandardGeneration ''req'' FLASH 0 False False 0 [authFailure]
     = Some ([], Rejected ''Gemini authentication failed. Check API key.'')
   \<and> executeStandardGeneration ''req'' FLASH 0 False False 0 [fetchFailure, canceledRetry]
     = Some ([Delta ''req'' (RetryNotice False 1000), ErrorEvent ''req'' ''Canceled'',
              Delta ''req'' (PacingNotice 4900)],
             Rejected ''Generation canceled.'')"
  by code_simp

subsection \<open>Classification of errors and backoff\<close>


















end
